theory Spec2Isabelle
  imports Complex_Main "HOL-Library.Sublist" "HOL-Library.Signed_Division"
begin

section \<open>AegisSLO: the evaluation core\<close>

text \<open>
  A shallow embedding of the duration parser (\<^verbatim>\<open>internal/slo/duration.go\<close> and
  \<^verbatim>\<open>formatDuration\<close> of the validator), the evaluation math, the evaluator
  (\<^verbatim>\<open>internal/eval/evaluator.go\<close>), the policy engine and the scheduler's
  \<^verbatim>\<open>evaluateOnce\<close> / \<^verbatim>\<open>EvaluateNow\<close> with the state cache.

  Conventions of the embedding:
  \<^item> a Go struct is a record whose fields keep their names, after a short prefix where
    two structs share a field name or the name is taken;
  \<^item> a Go \<^verbatim>\<open>float64\<close> is a \<open>float64\<close>: the IEEE 754 binary64 values with NaN,
    the infinities and both zeros, every operation rounding to nearest, ties to even;
  \<^item> a \<^verbatim>\<open>time.Duration\<close> is an \<^typ>\<open>int\<close> count of nanoseconds kept in the
    \<^verbatim>\<open>int64\<close> range, with the wrap-around of \<^verbatim>\<open>int64\<close> multiplication written
    out (\<open>wrap64\<close>);
  \<^item> a \<^verbatim>\<open>time.Time\<close> is an \<^typ>\<open>int\<close> count of nanoseconds since the epoch;
  \<^item> a Go \<^verbatim>\<open>string\<close> is a \<^typ>\<open>string\<close> (a list of bytes);
  \<^item> a Go map is a partial function; the unspecified order of a \<^verbatim>\<open>range\<close> over
    a map is a list parameter that enumerates the keys (\<open>rangeOver\<close>);
  \<^item> a possibly-nil pointer argument is an \<^typ>\<open>'a option\<close>; an \<^verbatim>\<open>error\<close> return
    is the left summand of a sum type;
  \<^item> the scheduler's functions are their sequential bodies on the cache and the audit
    storage: goroutines, the ticker, locks and log output are not part of the model.
\<close>

subsection \<open>IEEE 754 binary64 (\<^verbatim>\<open>float64\<close>)\<close>

text \<open>
  The values of a \<^verbatim>\<open>float64\<close>: not-a-number, the two infinities, negative zero, and
  the finite numbers by their real value, \<open>Finite 0\<close> being positive zero. The operations
  below are the ones the program uses; each computes the exact real result and rounds it
  to the nearest binary64, ties to even (\<open>round64\<close>). The type has a finite value for
  every real; the doubles among them are the values of \<open>round64\<close>, and an operation
  returns no other.
\<close>

datatype float64 = NaN | PInf | NInf | NegZero | Finite real

text \<open>Rounding a real to the nearest integer, ties to the even one.\<close>

definition roundHalfEven :: "real \<Rightarrow> int" where
  "roundHalfEven x =
     (let f = \<lfloor>x\<rfloor>; r = x - of_int f
      in if r < 1 / 2 then f else if r > 1 / 2 then f + 1
         else if even f then f else f + 1)"

text \<open>
  The exponent \<open>e\<close> of the unit in the last place of a positive real \<open>a\<close>: the least
  \<open>e \<ge> -1074\<close> with \<open>a < 2 ^ (e + 53)\<close>, found by counting up from the exponent of
  the subnormal numbers. A binary64 is an integer below \<open>2 ^ 53\<close> in magnitude times
  \<open>2 ^ e\<close> with \<open>-1074 \<le> e \<le> 971\<close>.
\<close>

fun findExp :: "real \<Rightarrow> int \<Rightarrow> nat \<Rightarrow> int" where
  "findExp a e 0 = e"
| "findExp a e (Suc n) = (if a < 2 powi (e + 53) then e else findExp a (e + 1) n)"

definition exponent64 :: "real \<Rightarrow> int" where
  "exponent64 a = findExp a (- 1074) 2046"

definition overflow64 :: real where
  "overflow64 = 2 ^ 1024"

definition round64 :: "real \<Rightarrow> float64" where
  "round64 x =
     (if x = 0 then Finite 0
      else
        let a = \<bar>x\<bar>;
            e = exponent64 a;
            m = roundHalfEven (a / 2 powi e);
            v = of_int m * 2 powi e
        in if v \<ge> overflow64 then (if x < 0 then NInf else PInf)
           else if v = 0 then (if x < 0 then NegZero else Finite 0)
           else Finite (if x < 0 then - v else v))"

definition isNaN :: "float64 \<Rightarrow> bool" where
  "isNaN a \<longleftrightarrow> a = NaN"

definition isInf :: "float64 \<Rightarrow> bool" where
  "isInf a \<longleftrightarrow> a = PInf \<or> a = NInf"

definition isZero :: "float64 \<Rightarrow> bool" where
  "isZero a \<longleftrightarrow> a = NegZero \<or> a = Finite 0"

fun signbit :: "float64 \<Rightarrow> bool" where
  "signbit NaN = False"
| "signbit PInf = False"
| "signbit NInf = True"
| "signbit NegZero = True"
| "signbit (Finite x) = (x < 0)"

text \<open>The real value of a finite number (of no use on the other values).\<close>

fun valueOf :: "float64 \<Rightarrow> real" where
  "valueOf (Finite x) = x"
| "valueOf NegZero = 0"
| "valueOf NaN = 0"
| "valueOf PInf = 0"
| "valueOf NInf = 0"

definition zero64 :: "bool \<Rightarrow> float64" where
  "zero64 negative = (if negative then NegZero else Finite 0)"

definition inf64 :: "bool \<Rightarrow> float64" where
  "inf64 negative = (if negative then NInf else PInf)"

text \<open>The comparisons \<^verbatim>\<open>==\<close>, \<^verbatim>\<open><\<close>, \<^verbatim>\<open><=\<close>, \<^verbatim>\<open>>\<close>, \<^verbatim>\<open>>=\<close>: false when an operand is NaN; the two zeros are equal.\<close>

definition f64_eq :: "float64 \<Rightarrow> float64 \<Rightarrow> bool" where
  "f64_eq a b \<longleftrightarrow>
     \<not> isNaN a \<and> \<not> isNaN b
     \<and> (if isInf a \<or> isInf b then a = b else valueOf a = valueOf b)"

definition f64_lt :: "float64 \<Rightarrow> float64 \<Rightarrow> bool" where
  "f64_lt a b \<longleftrightarrow>
     \<not> isNaN a \<and> \<not> isNaN b
     \<and> (if a = PInf \<or> b = NInf then False
          else if a = NInf \<or> b = PInf then True
          else valueOf a < valueOf b)"

definition f64_le :: "float64 \<Rightarrow> float64 \<Rightarrow> bool" where
  "f64_le a b \<longleftrightarrow> f64_lt a b \<or> f64_eq a b"

definition f64_gt :: "float64 \<Rightarrow> float64 \<Rightarrow> bool" where
  "f64_gt a b \<longleftrightarrow> f64_lt b a"

definition f64_ge :: "float64 \<Rightarrow> float64 \<Rightarrow> bool" where
  "f64_ge a b \<longleftrightarrow> f64_le b a"

text \<open>Division \<^verbatim>\<open>a / b\<close>.\<close>

definition f64_div :: "float64 \<Rightarrow> float64 \<Rightarrow> float64" where
  "f64_div a b =
     (if isNaN a \<or> isNaN b then NaN
      else if isInf a then (if isInf b then NaN else inf64 (signbit a \<noteq> signbit b))
      else if isInf b then zero64 (signbit a \<noteq> signbit b)
      else if isZero b then (if isZero a then NaN else inf64 (signbit a \<noteq> signbit b))
      else if isZero a then zero64 (signbit a \<noteq> signbit b)
      else round64 (valueOf a / valueOf b))"

text \<open>
  Subtraction \<^verbatim>\<open>a - b\<close>. An exact result of zero is positive zero, but for
  \<open>(-0) - (+0)\<close>.
\<close>

definition f64_sub :: "float64 \<Rightarrow> float64 \<Rightarrow> float64" where
  "f64_sub a b =
     (if isNaN a \<or> isNaN b then NaN
      else if isInf a then (if isInf b \<and> signbit a = signbit b then NaN else a)
      else if isInf b then inf64 (\<not> signbit b)
      else if valueOf a - valueOf b = 0
           then (if a = NegZero \<and> b = Finite 0 then NegZero else Finite 0)
      else round64 (valueOf a - valueOf b))"

text \<open>\<^verbatim>\<open>math.Max\<close> and \<^verbatim>\<open>math.Min\<close>, with the special cases in the order of the library.\<close>

definition math_Max :: "float64 \<Rightarrow> float64 \<Rightarrow> float64" where
  "math_Max x y =
     (if x = PInf \<or> y = PInf then PInf
      else if isNaN x \<or> isNaN y then NaN
      else if isZero x \<and> isZero y then (if signbit x then y else x)
      else if f64_gt x y then x else y)"

definition math_Min :: "float64 \<Rightarrow> float64 \<Rightarrow> float64" where
  "math_Min x y =
     (if x = NInf \<or> y = NInf then NInf
      else if isNaN x \<or> isNaN y then NaN
      else if isZero x \<and> isZero y then (if signbit x then x else y)
      else if f64_lt x y then x else y)"

text \<open>
  Auxiliary notion of the proofs: a real on the grid of the subnormal numbers, an integer
  multiple of \<open>2 ^ -1074\<close>, as every finite binary64 is.
\<close>

definition ulpMin :: real where
  "ulpMin = 2 powi (- 1074)"

definition onGrid :: "real \<Rightarrow> bool" where
  "onGrid v \<longleftrightarrow> (\<exists>k::int. v = of_int k * ulpMin)"

subsection \<open>Evaluation math\<close>

record SLIResult =
  sli_Value :: float64
  sli_ErrorRate :: float64
  sli_InsufficientData :: bool
  sli_Reason :: string

definition ComputeSLI :: "float64 \<Rightarrow> float64 \<Rightarrow> SLIResult" where
  "ComputeSLI good total' =
     (if f64_eq total' (Finite 0) then
        \<lparr>sli_Value = Finite 0, sli_ErrorRate = Finite 0, sli_InsufficientData = True,
         sli_Reason = ''no traffic (total=0)''\<rparr>
      else
        let good' = (if f64_gt good total' then total' else good);
            sli = f64_div good' total';
            errorRate = math_Max (Finite 0) (f64_sub (Finite 1) sli)
        in \<lparr>sli_Value = sli, sli_ErrorRate = errorRate, sli_InsufficientData = False,
            sli_Reason = ''''\<rparr>)"

definition ComputeBurnRate :: "float64 \<Rightarrow> float64 \<Rightarrow> float64" where
  "ComputeBurnRate errorRate objective =
     (let errorBudget = f64_sub (Finite 1) objective
      in if f64_le errorBudget (Finite 0) then Finite 0 else f64_div errorRate errorBudget)"

definition ComputeBudgetRemaining :: "float64 \<Rightarrow> float64 \<Rightarrow> float64" where
  "ComputeBudgetRemaining errorRate objective =
     (let errorBudget = f64_sub (Finite 1) objective
      in if f64_le errorBudget (Finite 0) then Finite 0
         else
           let errorRate' = (if f64_lt errorRate (Finite 0) then Finite 0 else errorRate);
               consumed = f64_div errorRate' errorBudget;
               remaining = f64_sub (Finite 1) consumed
           in if f64_lt remaining (Finite 0) then Finite 0
              else if f64_gt remaining (Finite 1) then Finite 1
              else remaining)"

text \<open>
  The specification's side of the math claims, written from its words: the smaller of
  two numbers, \<open>clamp(x, lo, hi)\<close> as the larger of \<open>lo\<close> and the smaller of \<open>hi\<close> and
  \<open>x\<close>, and a value that lies in \<open>[0, 1]\<close>.
\<close>

definition min64 :: "float64 \<Rightarrow> float64 \<Rightarrow> float64" where
  "min64 a b = (if f64_le a b then a else b)"

definition clamp64 :: "float64 \<Rightarrow> float64 \<Rightarrow> float64 \<Rightarrow> float64" where
  "clamp64 x lo hi = math_Max lo (math_Min hi x)"

definition inUnitInterval :: "float64 \<Rightarrow> bool" where
  "inUnitInterval v \<longleftrightarrow> f64_le (Finite 0) v \<and> f64_le v (Finite 1)"

subsection \<open>Errors\<close>

text \<open>
  The \<^verbatim>\<open>error\<close> values the modelled functions build with \<^verbatim>\<open>fmt.Errorf\<close>, one
  constructor per format string, carrying the arguments of the format. An error wrapped
  with \<^verbatim>\<open>%w\<close> is an argument of the constructor. \<open>AdapterError\<close> stands for any
  failure a metrics adapter returns.
\<close>

datatype error =
    InvalidDurationFormat string
  | InvalidDurationValue string
  | UnknownDurationUnit string
  | AdapterError string
  | InvalidQueryFormat string
  | FixtureNotFound string
  | WindowNotFound string
  | NilSLOSpec
  | QueryGoodMetrics string error
  | QueryTotalMetrics string error
  | MissingComplianceMetrics string
  | SLONotFound string
  | InvalidEvaluationInterval error

subsection \<open>Durations\<close>

type_synonym Duration = int

definition maxInt64 :: int where
  "maxInt64 = 9223372036854775807"

definition minInt64 :: int where
  "minInt64 = - 9223372036854775808"

text \<open>The value an \<^verbatim>\<open>int64\<close> holds after an arithmetic result \<open>x\<close> wraps around.\<close>

definition wrap64 :: "int \<Rightarrow> int" where
  "wrap64 x = (x + 9223372036854775808) mod 18446744073709551616 - 9223372036854775808"

definition Second :: Duration where
  "Second = 1000000000"

definition Minute :: Duration where
  "Minute = 60 * Second"

definition Hour :: Duration where
  "Hour = 60 * Minute"

definition isDigit :: "char \<Rightarrow> bool" where
  "isDigit c \<longleftrightarrow> c \<in> set ''0123456789''"

definition digitVal :: "char \<Rightarrow> nat" where
  "digitVal c = of_char c - 48"

text \<open>
  \<^verbatim>\<open>durationPattern.FindStringSubmatch\<close> for the pattern \<^verbatim>\<open>^(\d+)(s|m|h|d)$\<close>: the two
  groups when the whole string is one or more ASCII digits followed by one unit letter,
  and no match otherwise (Go's \<^verbatim>\<open>\d\<close> is ASCII only and \<^verbatim>\<open>$\<close> is the end of the text).
\<close>

definition durationPattern :: "string \<Rightarrow> (string \<times> string) option" where
  "durationPattern s =
     (if s = [] then None
      else
        let digits = butlast s; unit = last s
        in if digits \<noteq> [] \<and> list_all isDigit digits \<and> unit \<in> set ''smhd''
           then Some (digits, [unit]) else None)"

text \<open>
  \<^verbatim>\<open>strconv.ParseInt(s, 10, 64)\<close>: an optional sign, then decimal digits accumulated
  most significant first; a value outside \<^verbatim>\<open>int64\<close> is a range error.
\<close>

datatype NumError = ErrSyntax | ErrRange

definition digitsValue :: "string \<Rightarrow> int" where
  "digitsValue ds = foldl (\<lambda>n c. n * 10 + int (digitVal c)) 0 ds"

definition ParseInt :: "string \<Rightarrow> NumError + int" where
  "ParseInt s =
     (if s = [] then Inl ErrSyntax
      else
        let neg = (hd s = CHR ''-'');
            s' = (if hd s = CHR ''+'' \<or> hd s = CHR ''-'' then tl s else s)
        in if s' = [] \<or> \<not> list_all isDigit s' then Inl ErrSyntax
           else
             let un = digitsValue s'
             in if \<not> neg \<and> un > maxInt64 then Inl ErrRange
                else if neg \<and> - un < minInt64 then Inl ErrRange
                else Inr (if neg then - un else un))"

definition ParseDuration :: "string \<Rightarrow> error + Duration" where
  "ParseDuration s =
     (case durationPattern s of
        None \<Rightarrow> Inl (InvalidDurationFormat s)
      | Some (num, unit) \<Rightarrow>
          (case ParseInt num of
             Inl err \<Rightarrow> Inl (InvalidDurationValue s)
           | Inr val \<Rightarrow>
               if unit = ''s'' then Inr (wrap64 (val * Second))
               else if unit = ''m'' then Inr (wrap64 (val * Minute))
               else if unit = ''h'' then Inr (wrap64 (val * Hour))
               else if unit = ''d'' then Inr (wrap64 (wrap64 (val * 24) * Hour))
               else Inl (UnknownDurationUnit unit)))"

text \<open>\<^verbatim>\<open>fmt.Sprintf("%d", i)\<close>: the decimal digits of \<open>i\<close>, after a minus sign when negative.\<close>

fun showNat :: "nat \<Rightarrow> string" where
  "showNat n = (if n < 10 then [''0123456789'' ! n]
                else showNat (n div 10) @ [''0123456789'' ! (n mod 10)])"

declare showNat.simps [simp del]

definition fmtInt :: "int \<Rightarrow> string" where
  "fmtInt i = (if i < 0 then CHR ''-'' # showNat (nat (- i)) else showNat (nat i))"

text \<open>
  \<^verbatim>\<open>formatDuration\<close>. Go's \<^verbatim>\<open>%\<close> and \<^verbatim>\<open>/\<close> on integers truncate towards zero:
  \<open>smod\<close> and \<open>sdiv\<close>.
\<close>

definition formatDuration :: "Duration \<Rightarrow> string" where
  "formatDuration d =
     (if d smod (24 * Hour) = 0 then fmtInt (d sdiv (24 * Hour)) @ ''d''
      else if d smod Hour = 0 then fmtInt (d sdiv Hour) @ ''h''
      else if d smod Minute = 0 then fmtInt (d sdiv Minute) @ ''m''
      else fmtInt (d sdiv Second) @ ''s'')"

text \<open>
  The specification's side of the duration claims, written from its words: a string
  matches \<^verbatim>\<open>^[0-9]+(s|m|h|d)$\<close>; the numeric count a digit string denotes, by place
  value; the nanoseconds of one unit; and the largest unit among d, h, m, s that divides
  a duration exactly.
\<close>

definition matchesDurationRegex :: "string \<Rightarrow> bool" where
  "matchesDurationRegex s \<longleftrightarrow>
     (\<exists>ds u. s = ds @ [u] \<and> ds \<noteq> [] \<and> (\<forall>c\<in>set ds. c \<in> set ''0123456789'')
        \<and> u \<in> set ''smhd'')"

definition decimalValue :: "string \<Rightarrow> int" where
  "decimalValue ds = (\<Sum>i<length ds. int (digitVal (rev ds ! i)) * 10 ^ i)"

definition unitNanos :: "char \<Rightarrow> int" where
  "unitNanos u =
     (if u = CHR ''s'' then 1000000000
      else if u = CHR ''m'' then 60 * 1000000000
      else if u = CHR ''h'' then 3600 * 1000000000
      else if u = CHR ''d'' then 86400 * 1000000000
      else 0)"

definition largestUnit :: "Duration \<Rightarrow> char \<Rightarrow> bool" where
  "largestUnit d c \<longleftrightarrow>
     c \<in> set ''smhd'' \<and> unitNanos c dvd d
       \<and> (\<forall>c'\<in>set ''smhd''. unitNanos c' dvd d \<longrightarrow> unitNanos c' \<le> unitNanos c)"

subsection \<open>The SLO document (\<^verbatim>\<open>internal/slo/types.go\<close>)\<close>

record Metadata =
  md_ID :: string
  md_Service :: string
  md_Owner :: string
  md_Description :: string

record QueryRef =
  PrometheusQuery :: string

record SLI =
  SLI_Type :: string
  SLI_ThresholdMs :: "int option"
  SLI_Good :: QueryRef
  SLI_Total :: QueryRef

record BurnRule =
  rule_Name :: string
  rule_ShortWindow :: string
  rule_LongWindow :: string
  rule_Threshold :: float64
  rule_Action :: string

record BurnPolicy =
  Rules :: "BurnRule list"

record Gating =
  MinDataPoints :: int
  StalenessLimit :: string

record Spec =
  Environment :: string
  Objective :: float64
  ComplianceWindow :: string
  EvaluationInterval :: string
  spec_SLI :: SLI
  spec_BurnPolicy :: BurnPolicy
  spec_Gating :: Gating

record SLO =
  APIVersion :: string
  Kind :: string
  slo_Metadata :: Metadata
  slo_Spec :: Spec

subsection \<open>Evaluation results (package \<^verbatim>\<open>eval\<close>)\<close>

type_synonym Time = int

record WindowMetrics =
  wm_Window :: string
  wm_Good :: float64
  wm_Total :: float64
  wm_DataTimestamp :: "Time option"

record BurnRateResult =
  br_Window :: string
  br_BurnRate :: float64
  br_SLI :: float64
  br_ErrorRate :: float64

record EvaluationResult =
  er_SLOID :: string
  er_SLI :: SLIResult
  er_BurnRates :: "string \<rightharpoonup> BurnRateResult"
  er_BudgetRemaining :: float64
  er_InsufficientData :: bool
  er_IsStale :: bool
  er_Timestamp :: Time

definition zeroSLIResult :: SLIResult where
  "zeroSLIResult =
     \<lparr>sli_Value = Finite 0, sli_ErrorRate = Finite 0, sli_InsufficientData = False, sli_Reason = ''''\<rparr>"

subsection \<open>Gate results (package \<^verbatim>\<open>policy\<close>)\<close>

text \<open>
  \<^verbatim>\<open>type Decision string\<close>: a decision is a string, and a rule's action becomes a
  decision by conversion, whatever the string is.
\<close>

type_synonym Decision = string

definition DecisionALLOW :: Decision where
  "DecisionALLOW = ''ALLOW''"

definition DecisionWARN :: Decision where
  "DecisionWARN = ''WARN''"

definition DecisionBLOCK :: Decision where
  "DecisionBLOCK = ''BLOCK''"

record RuleResult =
  rr_RuleName :: string
  rr_Triggered :: bool
  rr_Action :: Decision
  rr_ShortBurnRate :: float64
  rr_LongBurnRate :: float64
  rr_Threshold :: float64
  rr_Reason :: string

record GateResult =
  gr_Decision :: Decision
  gr_RuleResults :: "RuleResult list"
  gr_Reasons :: "string list"
  gr_IsStale :: bool
  gr_HasNoTraffic :: bool

subsection \<open>The policy engine\<close>

text \<open>
  \<^verbatim>\<open>fmt.Sprintf("%.2f", x)\<close>: for a finite \<open>x\<close> the sign, the integer part, a point
  and two decimals, the hundredths of the exact value rounded to nearest, ties to even;
  \<open>NaN\<close>, \<open>+Inf\<close> and \<open>-Inf\<close> for the other values.
\<close>

definition fmtFloat2 :: "float64 \<Rightarrow> string" where
  "fmtFloat2 x =
     (case x of
        NaN \<Rightarrow> ''NaN''
      | PInf \<Rightarrow> ''+Inf''
      | NInf \<Rightarrow> ''-Inf''
      | NegZero \<Rightarrow> ''-0.00''
      | Finite r \<Rightarrow>
          let h = nat (roundHalfEven (\<bar>r\<bar> * 100))
          in (if r < 0 then ''-'' else '''') @ showNat (h div 100) @ ''.''
               @ [''0123456789'' ! (h div 10 mod 10), ''0123456789'' ! (h mod 10)])"

text \<open>
  \<^verbatim>\<open>Engine.evaluateRule\<close>. The two map lookups come first; the \<^verbatim>\<open>RuleResult\<close> starts
  from its zero value with the name and the action set.
\<close>

definition evaluateRule :: "BurnRule \<Rightarrow> EvaluationResult \<Rightarrow> RuleResult" where
  "evaluateRule rule evalResult =
     (let ruleResult =
            \<lparr>rr_RuleName = rule_Name rule, rr_Triggered = False, rr_Action = rule_Action rule,
             rr_ShortBurnRate = Finite 0, rr_LongBurnRate = Finite 0, rr_Threshold = Finite 0, rr_Reason = ''''\<rparr>
      in case (er_BurnRates evalResult (rule_ShortWindow rule),
               er_BurnRates evalResult (rule_LongWindow rule)) of
           (Some shortBurn, Some longBurn) \<Rightarrow>
             let ruleResult' = ruleResult
                   \<lparr>rr_ShortBurnRate := br_BurnRate shortBurn,
                    rr_LongBurnRate := br_BurnRate longBurn,
                    rr_Threshold := rule_Threshold rule\<rparr>
             in if f64_ge (br_BurnRate shortBurn) (rule_Threshold rule)
                   \<and> f64_ge (br_BurnRate longBurn) (rule_Threshold rule)
                then ruleResult'
                       \<lparr>rr_Triggered := True,
                        rr_Reason := ''rule '' @ rule_Name rule @ '' triggered: short=''
                          @ fmtFloat2 (br_BurnRate shortBurn) @ ''x, long=''
                          @ fmtFloat2 (br_BurnRate longBurn) @ ''x (threshold=''
                          @ fmtFloat2 (rule_Threshold rule) @ ''x)''\<rparr>
                else ruleResult'\<lparr>rr_Triggered := False\<rparr>
         | _ \<Rightarrow>
             ruleResult
               \<lparr>rr_Triggered := False,
                rr_Reason := ''rule '' @ rule_Name rule @ '': missing window data''\<rparr>)"

text \<open>The body of the loop over the burn rules in \<^verbatim>\<open>Engine.Evaluate\<close>.\<close>

definition applyRule :: "EvaluationResult \<Rightarrow> BurnRule \<Rightarrow> GateResult \<Rightarrow> GateResult" where
  "applyRule evalResult rule result =
     (let ruleResult = evaluateRule rule evalResult;
          result1 = result\<lparr>gr_RuleResults := gr_RuleResults result @ [ruleResult]\<rparr>
      in if rr_Triggered ruleResult then
           let result2 =
                 (if rr_Action ruleResult = DecisionBLOCK
                  then result1\<lparr>gr_Decision := DecisionBLOCK\<rparr>
                  else if rr_Action ruleResult = DecisionWARN
                          \<and> gr_Decision result1 \<noteq> DecisionBLOCK
                  then result1\<lparr>gr_Decision := DecisionWARN\<rparr>
                  else result1)
           in result2\<lparr>gr_Reasons := gr_Reasons result2 @ [rr_Reason ruleResult]\<rparr>
         else result1)"

text \<open>The gating modifiers of \<^verbatim>\<open>Engine.Evaluate\<close>, applied before the rules.\<close>

definition applyModifiers :: "EvaluationResult \<Rightarrow> GateResult" where
  "applyModifiers evalResult =
     (let result =
            \<lparr>gr_Decision = DecisionALLOW, gr_RuleResults = [], gr_Reasons = [],
             gr_IsStale = er_IsStale evalResult,
             gr_HasNoTraffic = er_InsufficientData evalResult\<rparr>;
          result1 =
            (if er_IsStale evalResult
             then result\<lparr>gr_Decision := DecisionWARN,
                         gr_Reasons := gr_Reasons result @ [''data is stale'']\<rparr>
             else result)
      in if er_InsufficientData evalResult
         then result1\<lparr>gr_Decision := DecisionWARN,
                      gr_Reasons := gr_Reasons result1 @ [''insufficient data (zero traffic)'']\<rparr>
         else result1)"

text \<open>
  \<^verbatim>\<open>Engine.Evaluate\<close>. Both arguments are pointers the function dereferences without a
  check: on a nil one it panics, which is \<open>None\<close> here (\<^verbatim>\<open>evalResult\<close> is read first).
\<close>

definition Engine_Evaluate :: "SLO option \<Rightarrow> EvaluationResult option \<Rightarrow> GateResult option" where
  "Engine_Evaluate sloSpec evalResult =
     (case evalResult of
        None \<Rightarrow> None
      | Some ev \<Rightarrow>
          (case sloSpec of
             None \<Rightarrow> None
           | Some s \<Rightarrow>
               let result = fold (applyRule ev) (Rules (spec_BurnPolicy (slo_Spec s)))
                              (applyModifiers ev)
               in if gr_Decision result = DecisionALLOW \<and> length (gr_Reasons result) = 0
                  then Some (result\<lparr>gr_Reasons :=
                               gr_Reasons result @ [''all burn rate checks passed'']\<rparr>)
                  else Some result))"

text \<open>
  The specification's side of the decision claims: the severity order
  \<open>BLOCK > WARN > ALLOW\<close> (a string that is none of the three, which the engine ignores,
  ranks with \<open>ALLOW\<close>), whether a rule triggers, and the severities that contribute to
  a decision: \<open>WARN\<close> for each gating modifier that is set and the action of each
  triggered rule.
\<close>

definition severity :: "Decision \<Rightarrow> nat" where
  "severity d = (if d = ''BLOCK'' then 2 else if d = ''WARN'' then 1 else 0)"

definition triggers :: "EvaluationResult \<Rightarrow> BurnRule \<Rightarrow> bool" where
  "triggers ev rule \<longleftrightarrow>
     (\<exists>shortBurn longBurn.
        er_BurnRates ev (rule_ShortWindow rule) = Some shortBurn
      \<and> er_BurnRates ev (rule_LongWindow rule) = Some longBurn
      \<and> f64_ge (br_BurnRate shortBurn) (rule_Threshold rule)
      \<and> f64_ge (br_BurnRate longBurn) (rule_Threshold rule))"

definition contributions :: "SLO \<Rightarrow> EvaluationResult \<Rightarrow> nat set" where
  "contributions s ev =
     (if er_IsStale ev then {severity ''WARN''} else {})
     \<union> (if er_InsufficientData ev then {severity ''WARN''} else {})
     \<union> {severity (rule_Action rule) | rule.
          rule \<in> set (Rules (spec_BurnPolicy (slo_Spec s))) \<and> triggers ev rule}"

text \<open>
  The reason the specification asks of a triggered rule: a phrase naming the rule, both
  observed burn rates and the threshold.
\<close>

definition ruleTriggeredReason :: "string \<Rightarrow> float64 \<Rightarrow> float64 \<Rightarrow> float64 \<Rightarrow> string" where
  "ruleTriggeredReason name shortBurnRate longBurnRate threshold =
     ''rule '' @ name @ '' triggered: short='' @ fmtFloat2 shortBurnRate @ ''x, long=''
       @ fmtFloat2 longBurnRate @ ''x (threshold='' @ fmtFloat2 threshold @ ''x)''"

text \<open>Auxiliary notions of the proofs: the three decisions, and the severities of the
  actions of the triggered rules of a list.\<close>

definition validDecision :: "Decision \<Rightarrow> bool" where
  "validDecision d \<longleftrightarrow> d = DecisionALLOW \<or> d = DecisionWARN \<or> d = DecisionBLOCK"

definition ruleSeverities :: "EvaluationResult \<Rightarrow> BurnRule list \<Rightarrow> nat set" where
  "ruleSeverities ev rs = (\<lambda>r. severity (rule_Action r)) ` {r \<in> set rs. triggers ev r}"

subsection \<open>The evaluator (\<^verbatim>\<open>internal/eval/evaluator.go\<close>)\<close>

text \<open>
  The \<^verbatim>\<open>MetricsAdapter\<close> interface: \<^verbatim>\<open>QueryWindow(query, window)\<close>. Within one
  evaluation the answer of the backend is taken as a function of the query and the window.
\<close>

type_synonym MetricsAdapter = "string \<Rightarrow> string \<Rightarrow> error + WindowMetrics"

text \<open>
  \<^verbatim>\<open>t.Sub(u)\<close> of \<^verbatim>\<open>time.Time\<close>: the difference as a \<^verbatim>\<open>Duration\<close>, saturating at the
  largest and smallest \<^verbatim>\<open>int64\<close>.
\<close>

definition Sub :: "Time \<Rightarrow> Time \<Rightarrow> Duration" where
  "Sub t u =
     (let d = t - u
      in if d > maxInt64 then maxInt64 else if d < minInt64 then minInt64 else d)"

text \<open>
  A \<^verbatim>\<open>range\<close> over a Go map visits each key once, in an order the language leaves open:
  \<open>rangeOver keys ks\<close> says that the list \<open>ks\<close> is one such order for a map with
  the key set \<open>keys\<close>.
\<close>

definition rangeOver :: "'a set \<Rightarrow> 'a list \<Rightarrow> bool" where
  "rangeOver keys ks \<longleftrightarrow> distinct ks \<and> set ks = keys"

text \<open>
  \<^verbatim>\<open>collectWindows\<close>: the key set of \<^verbatim>\<open>windowSet\<close> as the function builds it, and
  the slices it can return, one per iteration order of that map.
\<close>

definition windowSet :: "SLO \<Rightarrow> string set" where
  "windowSet sloSpec =
     fold (\<lambda>rule ws. insert (rule_LongWindow rule) (insert (rule_ShortWindow rule) ws))
       (Rules (spec_BurnPolicy (slo_Spec sloSpec)))
       {ComplianceWindow (slo_Spec sloSpec)}"

definition collectWindows :: "SLO \<Rightarrow> string list set" where
  "collectWindows sloSpec = {windows. rangeOver (windowSet sloSpec) windows}"

text \<open>The choice of \<^verbatim>\<open>chosenTS\<close>; \<^verbatim>\<open>After\<close> is \<open>>\<close> on times.\<close>

definition chooseTimestamp :: "Time option \<Rightarrow> Time option \<Rightarrow> Time option" where
  "chooseTimestamp goodTS totalTS =
     (case goodTS of
        Some g \<Rightarrow>
          (case totalTS of
             Some t \<Rightarrow> if g > t then Some g else Some t
           | None \<Rightarrow> Some g)
      | None \<Rightarrow>
          (case totalTS of
             Some t \<Rightarrow> Some t
           | None \<Rightarrow> None))"

text \<open>
  The loop of \<^verbatim>\<open>Evaluate\<close> over the windows. Its state is the map \<^verbatim>\<open>windowMetrics\<close>
  and the \<^verbatim>\<open>result\<close> under construction; an adapter error returns at once.
\<close>

fun queryWindows ::
  "MetricsAdapter \<Rightarrow> SLO \<Rightarrow> Time \<Rightarrow> bool \<Rightarrow> Duration \<Rightarrow> string list
     \<Rightarrow> (string \<rightharpoonup> WindowMetrics) \<times> EvaluationResult
     \<Rightarrow> error + (string \<rightharpoonup> WindowMetrics) \<times> EvaluationResult" where
  "queryWindows adapter sloSpec now haveStalenessLimit stalenessLimit [] st = Inr st"
| "queryWindows adapter sloSpec now haveStalenessLimit stalenessLimit (window # windows)
     (windowMetrics, result) =
     (case adapter (PrometheusQuery (SLI_Good (spec_SLI (slo_Spec sloSpec)))) window of
        Inl err \<Rightarrow> Inl (QueryGoodMetrics window err)
      | Inr goodMetrics \<Rightarrow>
          (case adapter (PrometheusQuery (SLI_Total (spec_SLI (slo_Spec sloSpec)))) window of
             Inl err \<Rightarrow> Inl (QueryTotalMetrics window err)
           | Inr totalMetrics \<Rightarrow>
               let chosenTS = chooseTimestamp (wm_DataTimestamp goodMetrics)
                                (wm_DataTimestamp totalMetrics);
                   windowMetrics' = windowMetrics(window \<mapsto>
                     \<lparr>wm_Window = window, wm_Good = wm_Good goodMetrics,
                      wm_Total = wm_Total totalMetrics, wm_DataTimestamp = chosenTS\<rparr>);
                   result' =
                     (case chosenTS of
                        Some ts \<Rightarrow>
                          if haveStalenessLimit \<and> Sub now ts > stalenessLimit
                          then result\<lparr>er_IsStale := True\<rparr> else result
                      | None \<Rightarrow> result)
               in queryWindows adapter sloSpec now haveStalenessLimit stalenessLimit windows
                    (windowMetrics', result')))"

text \<open>The body of the loop over \<^verbatim>\<open>windowMetrics\<close> that fills \<^verbatim>\<open>result.BurnRates\<close>.\<close>

definition burnRateStep ::
  "float64 \<Rightarrow> (string \<rightharpoonup> WindowMetrics) \<Rightarrow> string \<Rightarrow> EvaluationResult
     \<Rightarrow> EvaluationResult" where
  "burnRateStep objective windowMetrics window result =
     (case windowMetrics window of
        None \<Rightarrow> result
      | Some metrics \<Rightarrow>
          let sliResult = ComputeSLI (wm_Good metrics) (wm_Total metrics);
              burnRate = ComputeBurnRate (sli_ErrorRate sliResult) objective;
              result1 = result\<lparr>er_BurnRates := (er_BurnRates result)(window \<mapsto>
                          \<lparr>br_Window = window, br_BurnRate = burnRate,
                           br_SLI = sli_Value sliResult,
                           br_ErrorRate = sli_ErrorRate sliResult\<rparr>)\<rparr>
          in if sli_InsufficientData sliResult
             then result1\<lparr>er_InsufficientData := True\<rparr> else result1)"

text \<open>
  The staleness limit as \<^verbatim>\<open>Evaluate\<close> parses it, once, before the loop: the pair of
  \<^verbatim>\<open>stalenessLimit\<close> and \<^verbatim>\<open>haveStalenessLimit\<close>. A limit that is empty or does not
  parse leaves both at their zero values.
\<close>

definition parseStalenessLimit :: "SLO \<Rightarrow> Duration \<times> bool" where
  "parseStalenessLimit s =
     (if StalenessLimit (spec_Gating (slo_Spec s)) \<noteq> ''''
      then (case ParseDuration (StalenessLimit (spec_Gating (slo_Spec s))) of
              Inr d \<Rightarrow> (d, True)
            | Inl err \<Rightarrow> (0, False))
      else (0, False))"

text \<open>
  \<^verbatim>\<open>Evaluator.Evaluate\<close>. \<open>windows\<close> is the slice \<^verbatim>\<open>collectWindows\<close> returned and
  \<open>keys\<close> the order in which the second loop ranges over \<^verbatim>\<open>windowMetrics\<close>.
\<close>

definition Evaluate ::
  "MetricsAdapter \<Rightarrow> string list \<Rightarrow> string list \<Rightarrow> SLO option \<Rightarrow> Time
     \<Rightarrow> error + EvaluationResult" where
  "Evaluate adapter windows keys sloSpec now =
     (case sloSpec of
        None \<Rightarrow> Inl NilSLOSpec
      | Some s \<Rightarrow>
          let result =
                \<lparr>er_SLOID = md_ID (slo_Metadata s), er_SLI = zeroSLIResult,
                 er_BurnRates = Map.empty, er_BudgetRemaining = Finite 0,
                 er_InsufficientData = False, er_IsStale = False, er_Timestamp = now\<rparr>;
              stalenessLimit = fst (parseStalenessLimit s);
              haveStalenessLimit = snd (parseStalenessLimit s)
          in case queryWindows adapter s now haveStalenessLimit stalenessLimit windows
                    (Map.empty, result) of
               Inl err \<Rightarrow> Inl err
             | Inr (windowMetrics, result1) \<Rightarrow>
                 let complianceWindow = ComplianceWindow (slo_Spec s)
                 in (case windowMetrics complianceWindow of
                       None \<Rightarrow> Inl (MissingComplianceMetrics complianceWindow)
                     | Some complianceMetrics \<Rightarrow>
                         let result2 = result1\<lparr>er_SLI :=
                               ComputeSLI (wm_Good complianceMetrics)
                                 (wm_Total complianceMetrics)\<rparr>;
                             result3 = fold (burnRateStep (Objective (slo_Spec s)) windowMetrics)
                                         keys result2
                         in Inr (result3\<lparr>er_BudgetRemaining :=
                                   ComputeBudgetRemaining (sli_ErrorRate (er_SLI result3))
                                     (Objective (slo_Spec s))\<rparr>)))"

text \<open>
  The specification's side of the evaluator claims: every window the SLO refers to;
  the data timestamp of a window, the later of the timestamps of the good and the total
  query when both exist, else the one that is present; and whether a query of a window
  fails.
\<close>

definition requiredWindows :: "SLO \<Rightarrow> string set" where
  "requiredWindows s =
     {ComplianceWindow (slo_Spec s)}
     \<union> (\<Union>rule\<in>set (Rules (spec_BurnPolicy (slo_Spec s))).
          {rule_ShortWindow rule, rule_LongWindow rule})"

definition dataTimestamp :: "MetricsAdapter \<Rightarrow> SLO \<Rightarrow> string \<Rightarrow> Time option" where
  "dataTimestamp adapter s window =
     (case (adapter (PrometheusQuery (SLI_Good (spec_SLI (slo_Spec s)))) window,
            adapter (PrometheusQuery (SLI_Total (spec_SLI (slo_Spec s)))) window) of
        (Inr goodMetrics, Inr totalMetrics) \<Rightarrow>
          (case (wm_DataTimestamp goodMetrics, wm_DataTimestamp totalMetrics) of
             (Some g, Some t) \<Rightarrow> Some (max g t)
           | (Some g, None) \<Rightarrow> Some g
           | (None, Some t) \<Rightarrow> Some t
           | (None, None) \<Rightarrow> None)
      | _ \<Rightarrow> None)"

definition queryFails :: "MetricsAdapter \<Rightarrow> SLO \<Rightarrow> string \<Rightarrow> bool" where
  "queryFails adapter s window \<longleftrightarrow>
     (\<exists>err. adapter (PrometheusQuery (SLI_Good (spec_SLI (slo_Spec s)))) window = Inl err)
     \<or> (\<exists>err. adapter (PrometheusQuery (SLI_Total (spec_SLI (slo_Spec s)))) window = Inl err)"

text \<open>Auxiliary notion of the proofs: the result \<^verbatim>\<open>Evaluate\<close> starts from.\<close>

definition initialResult :: "SLO \<Rightarrow> Time \<Rightarrow> EvaluationResult" where
  "initialResult s now =
     \<lparr>er_SLOID = md_ID (slo_Metadata s), er_SLI = zeroSLIResult,
      er_BurnRates = Map.empty, er_BudgetRemaining = Finite 0,
      er_InsufficientData = False, er_IsStale = False, er_Timestamp = now\<rparr>"

subsection \<open>The scheduler and its state cache\<close>

record EvaluationState =
  es_EvalResult :: EvaluationResult
  es_GateResult :: GateResult
  es_UpdatedAt :: Time
  es_TTL :: Duration

type_synonym StateCache = "string \<rightharpoonup> EvaluationState"

text \<open>\<^verbatim>\<open>StateCache.Set\<close>, under the cache's lock.\<close>

definition Cache_Set :: "StateCache \<Rightarrow> string \<Rightarrow> EvaluationState \<Rightarrow> StateCache" where
  "Cache_Set c sloID state = c(sloID \<mapsto> state)"

record SLOWithFile =
  swf_SLO :: SLO
  swf_File :: string

text \<open>
  The audit storage is an interface the scheduler only writes to, ignoring the errors it
  returns (they are logged): it is the list of the calls made, or \<open>None\<close> when no
  storage is set.
\<close>

datatype AuditCall =
    StoreEvaluation EvaluationResult GateResult
  | UpdateLatestState string EvaluationResult GateResult

record Scheduler =
  sch_cache :: StateCache
  sch_slos :: "SLOWithFile list"
  sch_audit :: "AuditCall list option"

text \<open>
  \<^verbatim>\<open>Scheduler.evaluateOnce\<close>, with \<^verbatim>\<open>time.Now()\<close> as the parameter \<open>now\<close>. The
  engine is called with two non-nil pointers, so it returns a result.
\<close>

definition evaluateOnce ::
  "MetricsAdapter \<Rightarrow> string list \<Rightarrow> string list \<Rightarrow> Time \<Rightarrow> Scheduler \<Rightarrow> SLO \<Rightarrow> Duration
     \<Rightarrow> Scheduler" where
  "evaluateOnce adapter windows keys now s sloSpec interval =
     (case Evaluate adapter windows keys (Some sloSpec) now of
        Inl err \<Rightarrow> s
      | Inr evalResult \<Rightarrow>
          (case Engine_Evaluate (Some sloSpec) (Some evalResult) of
             None \<Rightarrow> s
           | Some gateResult \<Rightarrow>
               let state = \<lparr>es_EvalResult = evalResult, es_GateResult = gateResult,
                            es_UpdatedAt = now, es_TTL = interval\<rparr>;
                   s1 = s\<lparr>sch_cache :=
                          Cache_Set (sch_cache s) (md_ID (slo_Metadata sloSpec)) state\<rparr>
               in (case sch_audit s1 of
                     None \<Rightarrow> s1
                   | Some calls \<Rightarrow>
                       s1\<lparr>sch_audit := Some (calls @
                            [StoreEvaluation evalResult gateResult,
                             UpdateLatestState (md_ID (slo_Metadata sloSpec))
                               evalResult gateResult])\<rparr>)))"

text \<open>\<^verbatim>\<open>Scheduler.EvaluateNow\<close>: the first loaded SLO with the id, then one evaluation.\<close>

definition findSLO :: "SLOWithFile list \<Rightarrow> string \<Rightarrow> SLO option" where
  "findSLO slos sloID =
     map_option swf_SLO (find (\<lambda>sloWithFile. md_ID (slo_Metadata (swf_SLO sloWithFile)) = sloID) slos)"

definition EvaluateNow ::
  "MetricsAdapter \<Rightarrow> string list \<Rightarrow> string list \<Rightarrow> Time \<Rightarrow> Scheduler \<Rightarrow> string
     \<Rightarrow> error option \<times> Scheduler" where
  "EvaluateNow adapter windows keys now s sloID =
     (case findSLO (sch_slos s) sloID of
        None \<Rightarrow> (Some (SLONotFound sloID), s)
      | Some targetSLO \<Rightarrow>
          (case ParseDuration (EvaluationInterval (slo_Spec targetSLO)) of
             Inl err \<Rightarrow> (Some (InvalidEvaluationInterval err), s)
           | Inr interval \<Rightarrow>
               (None, evaluateOnce adapter windows keys now s targetSLO interval)))"

subsection \<open>The synthetic adapter\<close>

text \<open>
  The adapter of the scenario tests: a map from fixture names to the metrics of each
  window. \<^verbatim>\<open>QueryWindow\<close> takes the query for a fixture name, after an optional
  \<^verbatim>\<open>fixture:\<close> prefix.
\<close>

record WindowData =
  wd_Good :: float64
  wd_Total :: float64
  wd_DataTimestamp :: "Time option"

type_synonym MetricFixture = "string \<rightharpoonup> WindowData"

definition parseQuery :: "string \<Rightarrow> string" where
  "parseQuery query =
     (if prefix ''fixture:'' query then drop (length ''fixture:'') query else query)"

definition Synthetic_QueryWindow :: "(string \<rightharpoonup> MetricFixture) \<Rightarrow> MetricsAdapter" where
  "Synthetic_QueryWindow fixtures query window =
     (let fixtureName = parseQuery query
      in if fixtureName = '''' then Inl (InvalidQueryFormat query)
         else
           (case fixtures fixtureName of
              None \<Rightarrow> Inl (FixtureNotFound fixtureName)
            | Some fixture \<Rightarrow>
                (case fixture window of
                   None \<Rightarrow> Inl (WindowNotFound window)
                 | Some windowData \<Rightarrow>
                     Inr \<lparr>wm_Window = window, wm_Good = wd_Good windowData,
                          wm_Total = wd_Total windowData,
                          wm_DataTimestamp = wd_DataTimestamp windowData\<rparr>)))"

subsection \<open>Fixtures of the engine's tests\<close>

text \<open>
  \<^verbatim>\<open>createTestSLO\<close> of the policy engine's test, and the shape of its evaluation results:
  the flags and a burn-rate map, every other field at its zero value.
\<close>

definition fastBurnRule :: BurnRule where
  "fastBurnRule =
     \<lparr>rule_Name = ''fast-burn'', rule_ShortWindow = ''5m'', rule_LongWindow = ''1h'',
      rule_Threshold = Finite 14, rule_Action = ''BLOCK''\<rparr>"

definition createTestSLO :: SLO where
  "createTestSLO =
     \<lparr>APIVersion = '''', Kind = '''',
      slo_Metadata = \<lparr>md_ID = ''test-slo'', md_Service = '''', md_Owner = '''',
                      md_Description = ''''\<rparr>,
      slo_Spec =
        \<lparr>Environment = '''', Objective = round64 (999 / 1000), ComplianceWindow = '''',
         EvaluationInterval = '''',
         spec_SLI = \<lparr>SLI_Type = '''', SLI_ThresholdMs = None,
                     SLI_Good = \<lparr>PrometheusQuery = ''''\<rparr>,
                     SLI_Total = \<lparr>PrometheusQuery = ''''\<rparr>\<rparr>,
         spec_BurnPolicy = \<lparr>Rules = [fastBurnRule]\<rparr>,
         spec_Gating = \<lparr>MinDataPoints = 0, StalenessLimit = ''''\<rparr>\<rparr>\<rparr>"

definition burnRateOf :: "float64 \<Rightarrow> BurnRateResult" where
  "burnRateOf b = \<lparr>br_Window = '''', br_BurnRate = b, br_SLI = Finite 0, br_ErrorRate = Finite 0\<rparr>"

definition testEvalResult ::
  "bool \<Rightarrow> bool \<Rightarrow> (string \<rightharpoonup> BurnRateResult) \<Rightarrow> EvaluationResult" where
  "testEvalResult stale insufficient burnRates =
     \<lparr>er_SLOID = ''test'', er_SLI = zeroSLIResult, er_BurnRates = burnRates,
      er_BudgetRemaining = Finite 0, er_InsufficientData = insufficient, er_IsStale = stale,
      er_Timestamp = 0\<rparr>"

definition healthyRates :: "string \<rightharpoonup> BurnRateResult" where
  "healthyRates = [''5m'' \<mapsto> burnRateOf (Finite 1), ''1h'' \<mapsto> burnRateOf (Finite 1)]"

definition fastBurnRates :: "string \<rightharpoonup> BurnRateResult" where
  "fastBurnRates = [''5m'' \<mapsto> burnRateOf (Finite 15), ''1h'' \<mapsto> burnRateOf (Finite 15)]"

subsection \<open>Fixtures of the evaluator and the scheduler\<close>

text \<open>
  An SLO in the shape of the one the adapter tests build (objective 0.999, a 30 day
  compliance window, one fast-burn rule over 5 minutes and 1 hour, a staleness limit of
  120 seconds), evaluated every 30 seconds against the fixture \<open>checkout\<close>; a fixture
  whose 5 minute window is 300 seconds old at the time \<open>1000 s\<close>; and an adapter whose
  backend is unavailable.
\<close>

definition checkoutSLO :: SLO where
  "checkoutSLO =
     \<lparr>APIVersion = '''', Kind = '''',
      slo_Metadata = \<lparr>md_ID = ''test-slo'', md_Service = ''test'', md_Owner = '''',
                      md_Description = ''''\<rparr>,
      slo_Spec =
        \<lparr>Environment = '''', Objective = round64 (999 / 1000), ComplianceWindow = ''30d'',
         EvaluationInterval = ''30s'',
         spec_SLI = \<lparr>SLI_Type = ''ratio'', SLI_ThresholdMs = None,
                     SLI_Good = \<lparr>PrometheusQuery = ''checkout''\<rparr>,
                     SLI_Total = \<lparr>PrometheusQuery = ''checkout''\<rparr>\<rparr>,
         spec_BurnPolicy = \<lparr>Rules = [fastBurnRule]\<rparr>,
         spec_Gating = \<lparr>MinDataPoints = 1, StalenessLimit = ''120s''\<rparr>\<rparr>\<rparr>"

definition staleFixtures :: "string \<rightharpoonup> MetricFixture" where
  "staleFixtures =
     [''checkout'' \<mapsto>
        [''30d'' \<mapsto> \<lparr>wd_Good = Finite 99950, wd_Total = Finite 100000,
                      wd_DataTimestamp = Some (990 * Second)\<rparr>,
         ''1h'' \<mapsto> \<lparr>wd_Good = Finite 99950, wd_Total = Finite 100000, wd_DataTimestamp = None\<rparr>,
         ''5m'' \<mapsto> \<lparr>wd_Good = Finite 99950, wd_Total = Finite 100000,
                     wd_DataTimestamp = Some (700 * Second)\<rparr>]]"

definition unavailableAdapter :: MetricsAdapter where
  "unavailableAdapter query window = Inl (AdapterError ''query failed after 1 attempts'')"

definition emptyScheduler :: Scheduler where
  "emptyScheduler =
     \<lparr>sch_cache = Map.empty,
      sch_slos = [\<lparr>swf_SLO = checkoutSLO, swf_File = ''checkout.yaml''\<rparr>],
      sch_audit = Some []\<rparr>"

text \<open>The same SLO with a staleness limit written in a syntax the parser does not accept.\<close>

definition misconfiguredSLO :: SLO where
  "misconfiguredSLO =
     checkoutSLO\<lparr>slo_Spec := (slo_Spec checkoutSLO)
       \<lparr>spec_Gating := \<lparr>MinDataPoints = 1, StalenessLimit = ''2m30s''\<rparr>\<rparr>\<rparr>"

section \<open>Properties\<close>

subsection \<open>Rounding to binary64\<close>

lemma findExp_ge: "e0 \<le> findExp a e0 n"
proof (induction n arbitrary: e0)
  case 0
  show ?case by simp
next
  case (Suc n)
  have "e0 + 1 \<le> findExp a (e0 + 1) n" by (rule Suc.IH)
  then show ?case by simp
qed

lemma findExp_le:
  assumes "a < 2 powi (k + 53)" and "e0 \<le> k"
  shows "findExp a e0 n \<le> k"
  using assms(2)
proof (induction n arbitrary: e0)
  case 0
  then show ?case by simp
next
  case (Suc n)
  show ?case
  proof (cases "a < 2 powi (e0 + 53)")
    case True
    with Suc.prems show ?thesis by simp
  next
    case False
    with assms(1) have "e0 \<noteq> k" by auto
    with Suc.prems have "e0 + 1 \<le> k" by simp
    from Suc.IH [OF this] False show ?thesis by simp
  qed
qed

lemma findExp_eq:
  assumes "a < 2 powi (e + 53)" and "e0 \<le> e" and "nat (e - e0) \<le> n"
    and "e = e0 \<or> 2 powi (e + 52) \<le> a"
  shows "findExp a e0 n = e"
  using assms(2,3,4)
proof (induction n arbitrary: e0)
  case 0
  then show ?case by simp
next
  case (Suc n)
  show ?case
  proof (cases "e = e0")
    case True
    with assms(1) show ?thesis by simp
  next
    case False
    with Suc.prems have lt: "e0 < e" and low: "2 powi (e + 52) \<le> a" by auto
    have "(2::real) powi (e0 + 53) \<le> 2 powi (e + 52)"
      using lt by (intro power_int_increasing) auto
    with low have nl: "\<not> a < 2 powi (e0 + 53)" by simp
    have "findExp a (e0 + 1) n = e"
      using lt Suc.prems low by (intro Suc.IH) auto
    with nl show ?thesis by simp
  qed
qed

lemma exponent64_eq:
  assumes "a < 2 powi (e + 53)" and "- 1074 \<le> e" and "e \<le> 971"
    and "e = - 1074 \<or> 2 powi (e + 52) \<le> a"
  shows "exponent64 a = e"
  unfolding exponent64_def using assms by (intro findExp_eq) auto

lemma exponent64_ge: "- 1074 \<le> exponent64 a"
  unfolding exponent64_def by (rule findExp_ge)

lemma exponent64_le: "a < 2 powi (k + 53) \<Longrightarrow> - 1074 \<le> k \<Longrightarrow> exponent64 a \<le> k"
  unfolding exponent64_def by (rule findExp_le)

lemma roundHalfEven_le: "x \<le> of_int n \<Longrightarrow> roundHalfEven x \<le> n"
proof -
  assume a: "x \<le> of_int n"
  then have f: "\<lfloor>x\<rfloor> \<le> n" by (simp add: floor_le_iff)
  show ?thesis
  proof (cases "\<lfloor>x\<rfloor> = n")
    case True
    with a have "x - of_int \<lfloor>x\<rfloor> \<le> 0" by simp
    then show ?thesis using True by (simp add: roundHalfEven_def Let_def)
  next
    case False
    with f have "\<lfloor>x\<rfloor> + 1 \<le> n" by simp
    with f show ?thesis by (simp add: roundHalfEven_def Let_def)
  qed
qed

lemma roundHalfEven_nonneg: "0 \<le> x \<Longrightarrow> 0 \<le> roundHalfEven x"
  by (simp add: roundHalfEven_def Let_def) 

lemma overflow64_gt_1: "1 < overflow64"
  unfolding overflow64_def by (rule one_less_power) simp_all

lemma round64_not_NaN: "round64 x \<noteq> NaN"
  by (simp add: round64_def Let_def)

lemma round64_unit:
  assumes "0 < q" and "q \<le> 1"
  shows "\<exists>v. round64 q = Finite v \<and> 0 \<le> v \<and> v \<le> 1"
proof -
  define e where "e = exponent64 q"
  define m where "m = roundHalfEven (q / 2 powi e)"
  define v where "v = of_int m * (2::real) powi e"
  have "q < 2 powi (- 52 + 53)" using assms(2) by simp
  then have e: "e \<le> - 52" unfolding e_def by (rule exponent64_le) simp
  define N where "N = (2::int) ^ nat (- e)"
  have N: "(2::real) powi (- e) = of_int N"
    using e by (simp add: N_def power_int_def)
  have "(2::real) powi e = inverse (2 powi (- e))"
    by (simp add: power_int_minus)
  then have inv: "(2::real) powi e = 1 / of_int N"
    by (simp add: N inverse_eq_divide)
  have Npos: "0 < N" by (simp add: N_def)
  have "q / 2 powi e = q * of_int N" by (simp add: inv)
  also have "\<dots> \<le> of_int N" using assms(2) Npos by (simp add: mult_le_cancel_right1)
  finally have mle: "m \<le> N" unfolding m_def by (rule roundHalfEven_le)
  have m0: "0 \<le> m" unfolding m_def using assms(1) by (intro roundHalfEven_nonneg) simp
  have v0: "0 \<le> v" unfolding v_def using m0 by simp
  have v1: "v \<le> 1" unfolding v_def inv using mle Npos by (simp add: field_simps)
  have small: "\<not> v \<ge> overflow64" using v1 overflow64_gt_1 by simp
  have "round64 q = (if v = 0 then Finite 0 else Finite v)"
    using assms(1) small by (simp add: round64_def Let_def v_def m_def e_def)
  with v0 v1 show ?thesis by auto
qed

lemma round64_value:
  assumes "0 < x" and "x < 2 powi (e + 53)" and "- 1074 \<le> e" and "e \<le> 971"
    and "e = - 1074 \<or> 2 powi (e + 52) \<le> x"
    and "roundHalfEven (x / 2 powi e) = m" and "0 < m" and "of_int m * 2 powi e < overflow64"
  shows "round64 x = Finite (of_int m * 2 powi e)"
proof -
  have "exponent64 x = e" using assms(2-5) by (rule exponent64_eq)
  then show ?thesis
    using assms(1,6,7,8) by (simp add: round64_def Let_def)
qed

lemma findExp_lower: "findExp a e0 n = e \<Longrightarrow> e = e0 \<or> 2 powi (e + 52) \<le> a"
proof (induction n arbitrary: e0)
  case 0
  then show ?case by simp
next
  case (Suc n)
  show ?case
  proof (cases "a < 2 powi (e0 + 53)")
    case True
    with Suc.prems show ?thesis by simp
  next
    case False
    with Suc.prems have r: "findExp a (e0 + 1) n = e" by simp
    from Suc.IH [OF r] show ?thesis
    proof
      assume "e = e0 + 1"
      with False show ?thesis by (simp add: add.commute add.left_commute)
    next
      assume "2 powi (e + 52) \<le> a"
      then show ?thesis by simp
    qed
  qed
qed

lemma exponent64_lower: "exponent64 a = - 1074 \<or> 2 powi (exponent64 a + 52) \<le> a"
  using findExp_lower [of a "- 1074" 2046 "exponent64 a"] by (simp add: exponent64_def)

lemma roundHalfEven_ge: "of_int n \<le> x \<Longrightarrow> n \<le> roundHalfEven x"
proof -
  assume "of_int n \<le> x"
  then have "n \<le> \<lfloor>x\<rfloor>" by (simp add: le_floor_iff)
  then show ?thesis by (simp add: roundHalfEven_def Let_def)
qed

lemma roundHalfEven_of_int: "roundHalfEven (of_int n) = n"
  by (simp add: roundHalfEven_def Let_def)

lemma round64_positive:
  assumes "0 < x"
  shows "round64 x \<noteq> NegZero" and "round64 x \<noteq> NInf"
  using assms by (simp_all add: round64_def Let_def)

lemma ulpMin_pos: "0 < ulpMin"
  unfolding ulpMin_def by (rule zero_less_power_int) simp

lemma pow2_grid:
  assumes "- 1074 \<le> e"
  shows "(2::real) powi e = of_int (2 ^ nat (e + 1074)) * ulpMin"
proof -
  have "(2::real) powi (int (nat (e + 1074)) + (- 1074)) = 2 powi int (nat (e + 1074)) * 2 powi (- 1074)"
    by (rule power_int_add) simp
  moreover have "int (nat (e + 1074)) + (- 1074) = e" using assms by simp
  moreover have "(2::real) powi int (nat (e + 1074)) = of_int (2 ^ nat (e + 1074))"
    by (simp only: power_int_of_nat of_int_power of_int_numeral)
  ultimately show ?thesis by (simp only: ulpMin_def)
qed

lemma round64_grid_magnitude:
  assumes "ulpMin \<le> \<bar>x\<bar>"
  shows "0 < of_int (roundHalfEven (\<bar>x\<bar> / 2 powi exponent64 \<bar>x\<bar>)) * (2::real) powi exponent64 \<bar>x\<bar>"
proof -
  define e where "e = exponent64 \<bar>x\<bar>"
  have p: "0 < (2::real) powi e" by simp
  have "2 powi e \<le> \<bar>x\<bar>"
  proof (cases "e = - 1074")
    case True
    with assms show ?thesis by (simp only: ulpMin_def)
  next
    case False
    with exponent64_lower [of "\<bar>x\<bar>"] have "2 powi (e + 52) \<le> \<bar>x\<bar>" by (simp add: e_def)
    moreover have "(2::real) powi e \<le> 2 powi (e + 52)"
      by (intro power_int_increasing) auto
    ultimately show ?thesis by simp
  qed
  with p have "of_int 1 \<le> \<bar>x\<bar> / 2 powi e" by (simp add: field_simps)
  then have "1 \<le> roundHalfEven (\<bar>x\<bar> / 2 powi e)" by (rule roundHalfEven_ge)
  then have "0 < real_of_int (roundHalfEven (\<bar>x\<bar> / 2 powi e))" by simp
  with p show ?thesis unfolding e_def by simp
qed

lemma round64_nonzero:
  assumes "ulpMin \<le> \<bar>x\<bar>"
  shows "round64 x \<noteq> NegZero" and "round64 x \<noteq> Finite 0"
proof -
  from assms ulpMin_pos have x: "x \<noteq> 0" by auto
  note v = round64_grid_magnitude [OF assms]
  show "round64 x \<noteq> NegZero" using x v by (auto simp: round64_def Let_def)
  show "round64 x \<noteq> Finite 0" using x v by (auto simp: round64_def Let_def)
qed

lemma round64_grid:
  assumes "round64 x = Finite v"
  shows "onGrid v"
proof (cases "v = 0")
  case True
  have "(0::real) = of_int 0 * ulpMin" by simp
  with True show ?thesis unfolding onGrid_def by blast
next
  case False
  define e where "e = exponent64 \<bar>x\<bar>"
  define m where "m = roundHalfEven (\<bar>x\<bar> / 2 powi e)"
  define n where "n = (2::int) ^ nat (e + 1074)"
  from assms False have v: "v = of_int m * 2 powi e \<or> v = - (of_int m * 2 powi e)"
    unfolding round64_def Let_def e_def m_def by (auto split: if_splits)
  have "- 1074 \<le> e" unfolding e_def by (rule exponent64_ge)
  then have g: "(2::real) powi e = of_int n * ulpMin"
    unfolding n_def by (rule pow2_grid)
  from v have "v = of_int (m * n) * ulpMin \<or> v = of_int (- (m * n)) * ulpMin"
    unfolding g by auto
  then show ?thesis unfolding onGrid_def by blast
qed

lemma onGrid_diff: "onGrid a \<Longrightarrow> onGrid b \<Longrightarrow> onGrid (a - b)"
proof -
  assume "onGrid a" "onGrid b"
  then obtain k l :: int where "a = of_int k * ulpMin" "b = of_int l * ulpMin"
    unfolding onGrid_def by blast
  then have "a - b = of_int (k - l) * ulpMin" by (simp add: algebra_simps)
  then show ?thesis unfolding onGrid_def by blast
qed

lemma onGrid_1: "onGrid 1"
proof -
  have "(2::real) powi 0 = of_int (2 ^ nat (0 + 1074)) * ulpMin"
    by (rule pow2_grid) simp
  then have "(1::real) = of_int (2 ^ nat (0 + 1074)) * ulpMin"
    by (simp only: power_int_0_right)
  then show ?thesis unfolding onGrid_def by blast
qed

lemma onGrid_magnitude:
  assumes "onGrid v" and "v \<noteq> 0"
  shows "ulpMin \<le> \<bar>v\<bar>"
proof -
  from assms(1) obtain k :: int where k: "v = of_int k * ulpMin"
    unfolding onGrid_def by blast
  with assms(2) have "k \<noteq> 0" by auto
  then have "1 \<le> \<bar>real_of_int k\<bar>" by (simp flip: of_int_abs)
  moreover have "\<bar>v\<bar> = \<bar>real_of_int k\<bar> * ulpMin"
    unfolding k using ulpMin_pos by (simp add: abs_mult)
  ultimately show ?thesis using ulpMin_pos by (simp add: mult_le_cancel_right1)
qed

lemma round64_exact:
  assumes "0 < m" and "m < 2 ^ 53" and "- 1074 \<le> e" and "e \<le> 971"
    and "e = - 1074 \<or> 2 ^ 52 \<le> m"
  shows "round64 (of_int m * 2 powi e) = Finite (of_int m * 2 powi e)"
proof (rule round64_value [where e = e and m = m])
  have p: "0 < (2::real) powi e" by simp
  have s53: "(2::real) powi (e + 53) = 2 powi e * 2 powi 53"
    by (rule power_int_add) simp
  have s52: "(2::real) powi (e + 52) = 2 powi e * 2 powi 52"
    by (rule power_int_add) simp
  show "0 < real_of_int m * 2 powi e" using assms(1) p by simp
  have "real_of_int m < real_of_int (2 ^ 53)"
    using assms(2) by (simp only: of_int_less_iff)
  then have "real_of_int m < 2 powi 53" by simp
  then have "real_of_int m * 2 powi e < 2 powi 53 * 2 powi e"
    using p by (rule mult_strict_right_mono)
  then show up: "real_of_int m * 2 powi e < 2 powi (e + 53)"
    by (simp only: s53 mult.commute)
  show "- 1074 \<le> e" "e \<le> 971" by fact+
  show "e = - 1074 \<or> 2 powi (e + 52) \<le> real_of_int m * 2 powi e"
  proof (cases "e = - 1074")
    case True
    then show ?thesis by (rule disjI1)
  next
    case False
    with assms(5) have "2 ^ 52 \<le> m" by simp
    then have "real_of_int (2 ^ 52) \<le> real_of_int m" by (simp only: of_int_le_iff)
    then have "2 powi 52 \<le> real_of_int m" by simp
    then have "2 powi 52 * 2 powi e \<le> real_of_int m * 2 powi e"
      using p by (intro mult_right_mono) simp_all
    then have "2 powi (e + 52) \<le> real_of_int m * 2 powi e"
      by (simp only: s52 mult.commute)
    then show ?thesis by (rule disjI2)
  qed
  have "real_of_int m * 2 powi e / 2 powi e = real_of_int m" using p by simp
  then show "roundHalfEven (real_of_int m * 2 powi e / 2 powi e) = m"
    by (simp only: roundHalfEven_of_int)
  show "0 < m" by fact
  have "(2::real) powi (e + 53) \<le> 2 powi 1024"
    using assms(4) by (intro power_int_increasing) auto
  also have "(2::real) powi 1024 = overflow64"
    by (simp only: overflow64_def power_int_numeral)
  finally show "real_of_int m * 2 powi e < overflow64"
    using up by simp
qed

lemma f64_compare_Finite:
  "f64_ge (Finite a) (Finite b) \<longleftrightarrow> b \<le> a"
  "f64_le (Finite a) (Finite b) \<longleftrightarrow> a \<le> b"
  "f64_gt (Finite a) (Finite b) \<longleftrightarrow> b < a"
  "f64_lt (Finite a) (Finite b) \<longleftrightarrow> a < b"
  "f64_eq (Finite a) (Finite b) \<longleftrightarrow> a = b"
  by (auto simp: f64_ge_def f64_le_def f64_gt_def f64_lt_def f64_eq_def isNaN_def isInf_def)

subsection \<open>Durations\<close>

lemma digit_char:
  "n < 10 \<Longrightarrow> isDigit (''0123456789'' ! n) \<and> digitVal (''0123456789'' ! n) = n"
proof -
  assume "n < 10"
  then have "n \<in> {0, 1, 2, 3, 4, 5, 6, 7, 8, 9}" by auto
  then show ?thesis
    unfolding isDigit_def digitVal_def by (elim insertE emptyE) simp_all
qed

lemma showNat_digits: "list_all isDigit (showNat n)"
proof (induction n rule: showNat.induct)
  case (1 n)
  show ?case
  proof (cases "n < 10")
    case True
    then show ?thesis by (subst showNat.simps) (simp add: digit_char)
  next
    case False
    with 1 show ?thesis by (subst showNat.simps) (simp add: digit_char)
  qed
qed

lemma showNat_nonempty: "showNat n \<noteq> []"
  by (subst showNat.simps) simp

lemma digitsValue_snoc: "digitsValue (ds @ [c]) = digitsValue ds * 10 + int (digitVal c)"
  by (simp add: digitsValue_def)

lemma digitsValue_showNat: "digitsValue (showNat n) = int n"
proof (induction n rule: showNat.induct)
  case (1 n)
  show ?case
  proof (cases "n < 10")
    case True
    then show ?thesis
      by (subst showNat.simps) (simp add: digitsValue_def digit_char)
  next
    case False
    then have "digitsValue (showNat n) = int (n div 10) * 10 + int (n mod 10)"
      using 1 by (subst showNat.simps) (simp add: digitsValue_snoc digit_char)
    then show ?thesis by presburger
  qed
qed

lemma decimalValue_snoc: "decimalValue (ds @ [c]) = decimalValue ds * 10 + int (digitVal c)"
proof -
  have "decimalValue (ds @ [c])
          = (\<Sum>i<Suc (length ds). int (digitVal ((c # rev ds) ! i)) * 10 ^ i)"
    by (simp add: decimalValue_def)
  also have "\<dots> = int (digitVal c) + (\<Sum>i<length ds. int (digitVal (rev ds ! i)) * 10 ^ Suc i)"
    by (subst sum.lessThan_Suc_shift) simp
  also have "(\<Sum>i<length ds. int (digitVal (rev ds ! i)) * 10 ^ Suc i) = decimalValue ds * 10"
    by (simp add: decimalValue_def sum_distrib_left mult_ac)
  finally show ?thesis by simp
qed

lemma digitsValue_decimalValue: "digitsValue ds = decimalValue ds"
proof (induction ds rule: rev_induct)
  case Nil
  show ?case by (simp add: digitsValue_def decimalValue_def)
next
  case (snoc c ds)
  then show ?case by (simp add: digitsValue_snoc decimalValue_snoc)
qed

lemma digitsValue_nonneg: "0 \<le> digitsValue ds"
  by (induction ds rule: rev_induct) (simp_all add: digitsValue_def)

lemma wrap64_id: "minInt64 \<le> x \<Longrightarrow> x \<le> maxInt64 \<Longrightarrow> wrap64 x = x"
  by (simp add: wrap64_def minInt64_def maxInt64_def)

lemma ParseInt_digits:
  assumes "ds \<noteq> []" and "list_all isDigit ds"
  shows "ParseInt ds = (if digitsValue ds > maxInt64 then Inl ErrRange else Inr (digitsValue ds))"
proof -
  from assms obtain c cs where ds: "ds = c # cs" by (cases ds) auto
  with assms(2) have "isDigit c" by simp
  then have "c \<noteq> CHR ''-''" "c \<noteq> CHR ''+''" by (auto simp: isDigit_def)
  then show ?thesis
    using assms unfolding ParseInt_def Let_def ds by simp
qed

lemma durationPattern_Some:
  "durationPattern s = Some (num, unit) \<longleftrightarrow>
     (\<exists>u. s = num @ [u] \<and> unit = [u] \<and> num \<noteq> [] \<and> list_all isDigit num \<and> u \<in> set ''smhd'')"
proof (cases "s = []")
  case True
  then show ?thesis by (simp add: durationPattern_def)
next
  case False
  then have s: "s = butlast s @ [last s]" by simp
  show ?thesis
  proof
    assume "durationPattern s = Some (num, unit)"
    then have "num = butlast s \<and> unit = [last s] \<and> num \<noteq> [] \<and> list_all isDigit num
                 \<and> last s \<in> set ''smhd''"
      using False unfolding durationPattern_def Let_def by (auto split: if_splits)
    with s show "\<exists>u. s = num @ [u] \<and> unit = [u] \<and> num \<noteq> [] \<and> list_all isDigit num
                   \<and> u \<in> set ''smhd''"
      by metis
  next
    assume "\<exists>u. s = num @ [u] \<and> unit = [u] \<and> num \<noteq> [] \<and> list_all isDigit num \<and> u \<in> set ''smhd''"
    then obtain u where "s = num @ [u]" "unit = [u]" "num \<noteq> []" "list_all isDigit num"
      "u \<in> set ''smhd''" by blast
    then show "durationPattern s = Some (num, unit)"
      unfolding durationPattern_def Let_def by simp
  qed
qed

lemma durationPattern_None:
  "durationPattern s = None \<longleftrightarrow> \<not> matchesDurationRegex s"
proof -
  have "matchesDurationRegex s \<longleftrightarrow> (\<exists>num unit. durationPattern s = Some (num, unit))"
    unfolding durationPattern_Some matchesDurationRegex_def
    by (auto simp: list_all_iff isDigit_def)
  then show ?thesis by (cases "durationPattern s") auto
qed



lemma ParseDuration_matched:
  assumes "ds \<noteq> []" and "list_all isDigit ds" and "u \<in> set ''smhd''"
  shows "ParseDuration (ds @ [u]) =
           (if decimalValue ds > maxInt64 then Inl (InvalidDurationValue (ds @ [u]))
            else if u = CHR ''s'' then Inr (wrap64 (decimalValue ds * Second))
            else if u = CHR ''m'' then Inr (wrap64 (decimalValue ds * Minute))
            else if u = CHR ''h'' then Inr (wrap64 (decimalValue ds * Hour))
            else Inr (wrap64 (wrap64 (decimalValue ds * 24) * Hour)))"
proof -
  have p: "durationPattern (ds @ [u]) = Some (ds, [u])"
    using assms by (simp add: durationPattern_Some)
  have u: "u = CHR ''s'' \<or> u = CHR ''m'' \<or> u = CHR ''h'' \<or> u = CHR ''d''"
    using assms(3) by simp
  show ?thesis
  proof (cases "decimalValue ds > maxInt64")
    case True
    then have "ParseInt ds = Inl ErrRange"
      using assms by (simp add: ParseInt_digits digitsValue_decimalValue)
    with True show ?thesis by (simp add: ParseDuration_def p)
  next
    case False
    then have "ParseInt ds = Inr (decimalValue ds)"
      using assms by (simp add: ParseInt_digits digitsValue_decimalValue)
    with False u show ?thesis by (auto simp add: ParseDuration_def p)
  qed
qed

lemma unit_value:
  assumes "0 \<le> v" and "u \<in> set ''smhd''" and "v * unitNanos u \<le> maxInt64"
  shows "(if u = CHR ''s'' then wrap64 (v * Second)
          else if u = CHR ''m'' then wrap64 (v * Minute)
          else if u = CHR ''h'' then wrap64 (v * Hour)
          else wrap64 (wrap64 (v * 24) * Hour)) = v * unitNanos u"
proof -
  from assms(2) consider "u = CHR ''s''" | "u = CHR ''m''" | "u = CHR ''h''" | "u = CHR ''d''"
    by auto
  then show ?thesis
  proof cases
    case 1
    with assms show ?thesis
      by (simp add: unitNanos_def Second_def wrap64_id minInt64_def)
  next
    case 2
    with assms show ?thesis
      by (simp add: unitNanos_def Second_def Minute_def wrap64_id minInt64_def)
  next
    case 3
    with assms show ?thesis
      by (simp add: unitNanos_def Second_def Minute_def Hour_def wrap64_id minInt64_def)
  next
    case 4
    with assms have le: "v * 86400000000000 \<le> maxInt64"
      by (simp add: unitNanos_def)
    with assms(1) have "v * 24 \<le> maxInt64" by simp
    with assms(1) have "wrap64 (v * 24) = v * 24"
      by (simp add: wrap64_id minInt64_def)
    with 4 le assms(1) show ?thesis
      by (simp add: unitNanos_def Second_def Minute_def Hour_def wrap64_id minInt64_def)
  qed
qed

lemma ParseDuration_value:
  assumes m: "ds \<noteq> []" "list_all isDigit ds" "u \<in> set ''smhd''"
    and le: "decimalValue ds * unitNanos u \<le> maxInt64"
  shows "ParseDuration (ds @ [u]) = Inr (decimalValue ds * unitNanos u)"
proof -
  have nn: "0 \<le> decimalValue ds"
    using digitsValue_nonneg [of ds] by (simp add: digitsValue_decimalValue)
  have "1 \<le> unitNanos u"
    using m by (auto simp: unitNanos_def)
  with nn have "decimalValue ds \<le> decimalValue ds * unitNanos u"
    by (simp add: mult_le_cancel_left1)
  with le have small: "\<not> maxInt64 < decimalValue ds" by simp
  have "ParseDuration (ds @ [u]) =
          Inr (if u = CHR ''s'' then wrap64 (decimalValue ds * Second)
               else if u = CHR ''m'' then wrap64 (decimalValue ds * Minute)
               else if u = CHR ''h'' then wrap64 (decimalValue ds * Hour)
               else wrap64 (wrap64 (decimalValue ds * 24) * Hour))"
    using m small by (simp add: ParseDuration_matched)
  also have "\<dots> = Inr (decimalValue ds * unitNanos u)"
    using m unit_value [OF nn _ le] by simp
  finally show ?thesis .
qed

lemma matches_iff_pattern: "matchesDurationRegex s \<longleftrightarrow> durationPattern s \<noteq> None"
  by (simp add: durationPattern_None)

text \<open>
  Claim C8, as amended. \<open>ParseDuration s\<close> fails with an invalid-format error when \<open>s\<close>
  does not match \<^verbatim>\<open>^[0-9]+(s|m|h|d)$\<close>, and with an invalid-value error when \<open>s\<close>
  matches but its numeric count exceeds the largest \<^verbatim>\<open>int64\<close>; when \<open>s\<close> matches and
  the count times the unit (s = 1 second, m = 60 seconds, h = 3600 seconds,
  d = 86400 seconds, in nanoseconds) is at most the largest \<^verbatim>\<open>int64\<close>, it succeeds
  and returns that product.
\<close>

theorem ParseDuration_spec:
  "(\<not> matchesDurationRegex s \<longrightarrow> ParseDuration s = Inl (InvalidDurationFormat s))
   \<and> (\<forall>ds u. s = ds @ [u] \<and> matchesDurationRegex s \<longrightarrow>
         (maxInt64 < decimalValue ds \<longrightarrow> ParseDuration s = Inl (InvalidDurationValue s))
       \<and> (decimalValue ds * unitNanos u \<le> maxInt64 \<longrightarrow>
            ParseDuration s = Inr (decimalValue ds * unitNanos u)))"
proof (intro conjI impI allI)
  assume "\<not> matchesDurationRegex s"
  then have "durationPattern s = None" by (simp add: durationPattern_None)
  then show "ParseDuration s = Inl (InvalidDurationFormat s)"
    by (simp add: ParseDuration_def)
next
  fix ds u
  assume a: "s = ds @ [u] \<and> matchesDurationRegex s"
  then have m: "ds \<noteq> [] \<and> list_all isDigit ds \<and> u \<in> set ''smhd''"
    unfolding matchesDurationRegex_def by (auto simp: list_all_iff isDigit_def)
  {
    assume "maxInt64 < decimalValue ds"
    with a m show "ParseDuration s = Inl (InvalidDurationValue s)"
      by (simp add: ParseDuration_matched)
  }
  {
    assume le: "decimalValue ds * unitNanos u \<le> maxInt64"
    with a m show "ParseDuration s = Inr (decimalValue ds * unitNanos u)"
      by (simp add: ParseDuration_value)
  }
qed

theorem ParseDuration_spec_witness:
  "ParseDuration ''1.5h'' = Inl (InvalidDurationFormat ''1.5h'')
   \<and> ParseDuration ''9223372036854775808s'' = Inl (InvalidDurationValue ''9223372036854775808s'')
   \<and> ParseDuration ''90m'' = Inr 5400000000000"
proof -
  have 1: "\<not> matchesDurationRegex ''1.5h''"
    by (simp add: matches_iff_pattern durationPattern_def isDigit_def)
  have 2: "matchesDurationRegex ''9223372036854775808s''"
    by (simp add: matches_iff_pattern durationPattern_def isDigit_def)
  have 3: "matchesDurationRegex ''90m''"
    by (simp add: matches_iff_pattern durationPattern_def isDigit_def)
  have 4: "decimalValue ''9223372036854775808'' = 9223372036854775808"
    by (simp add: digitsValue_decimalValue [symmetric] digitsValue_def digitVal_def)
  have 5: "decimalValue ''90'' = 90"
    by (simp add: digitsValue_decimalValue [symmetric] digitsValue_def digitVal_def)
  show ?thesis
    using ParseDuration_spec [of "''1.5h''"] 1
      ParseDuration_spec [of "''9223372036854775808s''", THEN conjunct2, rule_format,
        of "''9223372036854775808''" "CHR ''s''"] 2 4
      ParseDuration_spec [of "''90m''", THEN conjunct2, rule_format, of "''90''" "CHR ''m''"] 3 5
    by (simp add: maxInt64_def unitNanos_def)
qed

text \<open>
  The claim as stated (success exactly on the strings that match) fails: this string
  matches the pattern and is rejected, its count being one more than the largest
  \<^verbatim>\<open>int64\<close>.
\<close>

theorem ParseDuration_regex_counterexample:
  "matchesDurationRegex ''9223372036854775808s''
   \<and> ParseDuration ''9223372036854775808s'' = Inl (InvalidDurationValue ''9223372036854775808s'')"
  by (simp add: matches_iff_pattern durationPattern_def isDigit_def ParseDuration_def
        ParseInt_def digitsValue_def digitVal_def maxInt64_def Let_def)

text \<open>
  Between the two bounds the count fits an \<^verbatim>\<open>int64\<close> and its product with the unit
  does not: the multiplication wraps around.
\<close>

lemma ParseDuration_wraps:
  "ParseDuration ''9223372036854775807s'' = Inr (- 1000000000)"
  by (simp add: durationPattern_def isDigit_def ParseDuration_def ParseInt_def
        digitsValue_def digitVal_def maxInt64_def minInt64_def Let_def wrap64_def Second_def)


lemma smod_sdiv_nonneg:
  fixes d U :: int
  assumes "0 \<le> d" and "0 < U"
  shows "d smod U = d mod U" and "d sdiv U = d div U"
  using assms by (simp_all add: signed_modulo_int_def signed_divide_int_def sgn_if)

lemma format_unit_roundtrip:
  assumes d: "0 \<le> d" "d \<le> maxInt64" and c: "c \<in> set ''smhd''" and dv: "unitNanos c dvd d"
  shows "ParseDuration (fmtInt (d div unitNanos c) @ [c]) = Inr d"
proof -
  have pos: "0 < unitNanos c" using c by (auto simp: unitNanos_def)
  define k where "k = d div unitNanos c"
  have k0: "0 \<le> k" unfolding k_def using d(1) pos by (simp add: pos_imp_zdiv_nonneg_iff)
  have kd: "k * unitNanos c = d" unfolding k_def using dv by simp
  have f: "fmtInt k = showNat (nat k)" using k0 by (simp add: fmtInt_def)
  have v: "decimalValue (showNat (nat k)) = k"
    using k0 by (simp add: digitsValue_decimalValue [symmetric] digitsValue_showNat)
  have "ParseDuration (showNat (nat k) @ [c]) = Inr (decimalValue (showNat (nat k)) * unitNanos c)"
    using ParseDuration_value [of "showNat (nat k)" c] c showNat_digits [of "nat k"]
      showNat_nonempty [of "nat k"] v kd d(2)
    by simp
  then show ?thesis
    using f v kd by (simp add: k_def)
qed

lemma formatDuration_largestUnit:
  assumes "0 \<le> d" and "Second dvd d"
  shows "\<exists>c. largestUnit d c \<and> formatDuration d = fmtInt (d div unitNanos c) @ [c]"
proof -
  have D: "24 * Hour = unitNanos (CHR ''d'')" and H: "Hour = unitNanos (CHR ''h'')"
    and M: "Minute = unitNanos (CHR ''m'')" and S: "Second = unitNanos (CHR ''s'')"
    by (simp_all add: unitNanos_def Hour_def Minute_def Second_def)
  have sm: "\<And>U. 0 < U \<Longrightarrow> d smod U = 0 \<longleftrightarrow> U dvd d"
    using assms(1) by (simp add: smod_sdiv_nonneg dvd_eq_mod_eq_0)
  have sd: "\<And>U. 0 < U \<Longrightarrow> d sdiv U = d div U"
    using assms(1) by (simp add: smod_sdiv_nonneg)
  have pos: "0 < 24 * Hour" "0 < Hour" "0 < Minute" "0 < Second"
    by (simp_all add: Hour_def Minute_def Second_def)
  consider (d) "24 * Hour dvd d"
    | (h) "\<not> 24 * Hour dvd d" "Hour dvd d"
    | (m) "\<not> 24 * Hour dvd d" "\<not> Hour dvd d" "Minute dvd d"
    | (s) "\<not> 24 * Hour dvd d" "\<not> Hour dvd d" "\<not> Minute dvd d"
    by blast
  then show ?thesis
  proof cases
    case d
    have "largestUnit d (CHR ''d'')"
      using d unfolding largestUnit_def D by (simp add: unitNanos_def)
    moreover have "formatDuration d = fmtInt (d div unitNanos (CHR ''d'')) @ ''d''"
      using d by (simp add: formatDuration_def sm pos sd flip: D)
    ultimately show ?thesis by blast
  next
    case h
    have "largestUnit d (CHR ''h'')"
      using h unfolding largestUnit_def D H by (simp add: unitNanos_def)
    moreover have "formatDuration d = fmtInt (d div unitNanos (CHR ''h'')) @ ''h''"
      using h by (simp add: formatDuration_def sm pos sd flip: H)
    ultimately show ?thesis by blast
  next
    case m
    have "largestUnit d (CHR ''m'')"
      using m unfolding largestUnit_def D H M by (simp add: unitNanos_def)
    moreover have "formatDuration d = fmtInt (d div unitNanos (CHR ''m'')) @ ''m''"
      using m by (simp add: formatDuration_def sm pos sd flip: M)
    ultimately show ?thesis by blast
  next
    case s
    have "largestUnit d (CHR ''s'')"
      using s assms(2) unfolding largestUnit_def D H M S by (simp add: unitNanos_def)
    moreover have "formatDuration d = fmtInt (d div unitNanos (CHR ''s'')) @ ''s''"
      using s by (simp add: formatDuration_def sm pos sd flip: S)
    ultimately show ?thesis by blast
  qed
qed

text \<open>
  Claim C9. For every duration \<open>d\<close> that is a whole non-negative count \<open>k\<close> of one of
  the units s, m, h, d, \<open>ParseDuration (formatDuration d)\<close> succeeds and returns \<open>d\<close>,
  and \<open>formatDuration d\<close> is the count of the largest unit among d, h, m, s that
  divides \<open>d\<close> exactly, followed by the letter of that unit.
\<close>

theorem formatDuration_ParseDuration_roundtrip:
  assumes "0 \<le> k" and "u \<in> {Second, Minute, Hour, 24 * Hour}" and "d = k * u"
    and "d \<le> maxInt64"
  shows "ParseDuration (formatDuration d) = Inr d
       \<and> (\<exists>c. largestUnit d c \<and> formatDuration d = fmtInt (d div unitNanos c) @ [c])"
proof -
  have "Second dvd u"
    using assms(2) by (auto simp: Hour_def Minute_def)
  then have sec: "Second dvd d" using assms(3) by simp
  have "0 \<le> u" using assms(2) by (auto simp: Hour_def Minute_def Second_def)
  then have d0: "0 \<le> d" using assms(1,3) by simp
  from formatDuration_largestUnit [OF d0 sec]
  obtain c where c: "largestUnit d c" "formatDuration d = fmtInt (d div unitNanos c) @ [c]"
    by blast
  then have "ParseDuration (formatDuration d) = Inr d"
    using format_unit_roundtrip [OF d0 assms(4), of c] by (simp add: largestUnit_def)
  with c show ?thesis by blast
qed

theorem formatDuration_ParseDuration_roundtrip_witness:
  "ParseDuration (formatDuration (90 * Minute)) = Inr (90 * Minute)
   \<and> formatDuration (90 * Minute) = ''90m''
   \<and> ParseDuration (formatDuration (7 * (24 * Hour))) = Inr (7 * (24 * Hour))"
proof -
  have f: "formatDuration (90 * Minute) = ''90m''"
    by (simp add: formatDuration_def Hour_def Minute_def Second_def signed_modulo_int_def
          signed_divide_int_def fmtInt_def showNat.simps)
  show ?thesis
    using formatDuration_ParseDuration_roundtrip [of 90 Minute "90 * Minute"]
      formatDuration_ParseDuration_roundtrip [of 7 "24 * Hour" "7 * (24 * Hour)"] f
    by (simp add: maxInt64_def Hour_def Minute_def Second_def)
qed

subsection \<open>Comparisons of binary64\<close>

lemma f64_ge_zero_cases:
  assumes "f64_ge a (Finite 0)"
  obtains "a = PInf" | "a = NegZero" | x where "a = Finite x" "0 \<le> x"
  using assms
  by (cases a) (auto simp: f64_ge_def f64_le_def f64_lt_def f64_eq_def isNaN_def isInf_def)

lemma f64_gt_zero_cases:
  assumes "f64_gt a (Finite 0)"
  obtains "a = PInf" | x where "a = Finite x" "0 < x"
  using assms
  by (cases a) (auto simp: f64_gt_def f64_lt_def isNaN_def)

lemma f64_gt_not_eq: "f64_gt a b \<Longrightarrow> \<not> f64_eq a b"
  by (cases a; cases b) (auto simp: f64_gt_def f64_lt_def f64_eq_def isNaN_def isInf_def)

lemma f64_gt_iff_not_le:
  "a \<noteq> NaN \<Longrightarrow> b \<noteq> NaN \<Longrightarrow> f64_gt a b \<longleftrightarrow> \<not> f64_le a b"
  by (cases a; cases b)
     (auto simp: f64_gt_def f64_le_def f64_lt_def f64_eq_def isNaN_def isInf_def)

lemma f64_between:
  assumes "r \<noteq> NaN" and "\<not> f64_lt r (Finite 0)" and "\<not> f64_gt r (Finite 1)"
  shows "inUnitInterval r"
  using assms
  by (cases r)
     (auto simp: inUnitInterval_def f64_gt_def f64_le_def f64_lt_def f64_eq_def isNaN_def
        isInf_def)

lemma inUnitInterval_simps:
  "inUnitInterval (Finite 0)" "inUnitInterval (Finite 1)" "inUnitInterval NegZero"
  "\<not> inUnitInterval NaN"
  "inUnitInterval (Finite v) \<longleftrightarrow> 0 \<le> v \<and> v \<le> 1"
  by (auto simp: inUnitInterval_def f64_le_def f64_lt_def f64_eq_def isNaN_def isInf_def)

subsection \<open>Evaluation math\<close>

lemma f64_div_unit:
  assumes "g = NegZero \<or> (\<exists>x. g = Finite x \<and> 0 \<le> x \<and> x \<le> y)" and "0 < y"
  shows "inUnitInterval (f64_div g (Finite y))"
proof -
  from assms(1) consider "g = NegZero" | "g = Finite 0" | x where "g = Finite x" "0 < x" "x \<le> y"
    by (auto simp: less_le)
  then show ?thesis
  proof cases
    case 1
    with assms(2) show ?thesis
      by (simp add: f64_div_def isNaN_def isInf_def isZero_def zero64_def inUnitInterval_simps)
  next
    case 2
    with assms(2) show ?thesis
      by (simp add: f64_div_def isNaN_def isInf_def isZero_def zero64_def inUnitInterval_simps)
  next
    case 3
    then have "0 < x / y" "x / y \<le> 1" using assms(2) by simp_all
    from round64_unit [OF this] obtain v where "round64 (x / y) = Finite v" "0 \<le> v" "v \<le> 1"
      by blast
    with 3 assms(2) show ?thesis
      by (simp add: f64_div_def isNaN_def isInf_def isZero_def inUnitInterval_simps)
  qed
qed

lemma f64_div_PInf_unit:
  assumes "g = NegZero \<or> (\<exists>x. g = Finite x \<and> 0 \<le> x)"
  shows "inUnitInterval (f64_div g PInf)"
  using assms
  by (auto simp: f64_div_def isNaN_def isInf_def zero64_def inUnitInterval_simps)

lemma ComputeSLI_unit:
  assumes g: "f64_ge good (Finite 0)" and t: "f64_gt total' (Finite 0)"
    and ninf: "\<not> (good = PInf \<and> total' = PInf)"
  shows "inUnitInterval (f64_div (if f64_gt good total' then total' else good) total')"
proof -
  from t show ?thesis
  proof (cases rule: f64_gt_zero_cases)
    case 1
    with ninf have gn: "good \<noteq> PInf" by simp
    from g gn have "good = NegZero \<or> (\<exists>x. good = Finite x \<and> 0 \<le> x)"
      by (cases rule: f64_ge_zero_cases) auto
    moreover from this have "\<not> f64_gt good PInf"
      by (auto simp: f64_gt_def f64_lt_def isNaN_def)
    ultimately show ?thesis unfolding 1 by (simp add: f64_div_PInf_unit)
  next
    case (2 y)
    from g show ?thesis
    proof (cases rule: f64_ge_zero_cases)
      case 1
      then have "f64_gt good total'" using 2 by (simp add: f64_gt_def f64_lt_def isNaN_def)
      then show ?thesis unfolding 2 using 2(2) by (simp add: f64_div_unit)
    next
      case 2
      then have "\<not> f64_gt good total'"
        using \<open>total' = Finite y\<close> \<open>0 < y\<close> by (simp add: f64_gt_def f64_lt_def isNaN_def)
      then show ?thesis
        unfolding \<open>total' = Finite y\<close> using 2 \<open>0 < y\<close> by (simp add: f64_div_unit)
    next
      case (3 x)
      show ?thesis
      proof (cases "x > y")
        case True
        then have "f64_gt good total'"
          using 3 \<open>total' = Finite y\<close> by (simp add: f64_gt_def f64_lt_def isNaN_def)
        then show ?thesis
          unfolding \<open>total' = Finite y\<close> using \<open>0 < y\<close> by (simp add: f64_div_unit)
      next
        case False
        then have "\<not> f64_gt good total'"
          using 3 \<open>total' = Finite y\<close> by (simp add: f64_gt_def f64_lt_def isNaN_def)
        then show ?thesis
          unfolding \<open>total' = Finite y\<close> using 3 False \<open>0 < y\<close> by (simp add: f64_div_unit)
      qed
    qed
  qed
qed

text \<open>
  Claim C3, as amended. For every \<open>good \<ge> 0\<close> and \<open>total \<ge> 0\<close>: when \<open>total = 0\<close>,
  \<open>ComputeSLI\<close> returns value 0, error rate 0 and \<open>insufficientData = true\<close>,
  whatever \<open>good\<close> is; when \<open>total > 0\<close> it returns \<open>insufficientData = false\<close>,
  \<open>value = min(good, total) / total\<close> and \<open>errorRate = max(0, 1 - value)\<close>, and the
  value lies in \<open>[0, 1]\<close> unless \<open>good\<close> and \<open>total\<close> are both \<open>+Inf\<close>.
\<close>

theorem ComputeSLI_spec:
  assumes "f64_ge good (Finite 0)" and "f64_ge total' (Finite 0)"
  shows "(f64_eq total' (Finite 0) \<longrightarrow>
            sli_Value (ComputeSLI good total') = Finite 0 \<and>
            sli_ErrorRate (ComputeSLI good total') = Finite 0 \<and>
            sli_InsufficientData (ComputeSLI good total'))
       \<and> (f64_gt total' (Finite 0) \<longrightarrow>
            \<not> sli_InsufficientData (ComputeSLI good total') \<and>
            sli_Value (ComputeSLI good total') = f64_div (min64 good total') total' \<and>
            sli_ErrorRate (ComputeSLI good total')
              = math_Max (Finite 0) (f64_sub (Finite 1) (sli_Value (ComputeSLI good total'))) \<and>
            (\<not> (good = PInf \<and> total' = PInf) \<longrightarrow>
               inUnitInterval (sli_Value (ComputeSLI good total'))))"
proof (intro conjI impI)
  assume "f64_eq total' (Finite 0)"
  then show "sli_Value (ComputeSLI good total') = Finite 0"
    and "sli_ErrorRate (ComputeSLI good total') = Finite 0"
    and "sli_InsufficientData (ComputeSLI good total')"
    by (simp_all add: ComputeSLI_def)
next
  assume t: "f64_gt total' (Finite 0)"
  then have ne: "\<not> f64_eq total' (Finite 0)" by (rule f64_gt_not_eq)
  have gN: "good \<noteq> NaN" using assms(1) by (auto simp: f64_ge_def f64_le_def f64_lt_def f64_eq_def isNaN_def)
  have tN: "total' \<noteq> NaN" using t by (auto simp: f64_gt_def f64_lt_def isNaN_def)
  have m: "(if f64_gt good total' then total' else good) = min64 good total'"
    by (simp add: min64_def f64_gt_iff_not_le [OF gN tN])
  have v: "sli_Value (ComputeSLI good total')
             = f64_div (if f64_gt good total' then total' else good) total'"
    using ne by (simp add: ComputeSLI_def Let_def)
  show "\<not> sli_InsufficientData (ComputeSLI good total')"
    using ne by (simp add: ComputeSLI_def Let_def)
  show "sli_Value (ComputeSLI good total') = f64_div (min64 good total') total'"
    unfolding v m ..
  show "sli_ErrorRate (ComputeSLI good total')
          = math_Max (Finite 0) (f64_sub (Finite 1) (sli_Value (ComputeSLI good total')))"
    using ne by (simp add: ComputeSLI_def Let_def)
  assume "\<not> (good = PInf \<and> total' = PInf)"
  with assms(1) t show "inUnitInterval (sli_Value (ComputeSLI good total'))"
    unfolding v by (rule ComputeSLI_unit)
qed

lemma onGrid_0: "onGrid 0"
  unfolding onGrid_def by (rule exI [of _ 0]) simp

lemma f64_div_grid: "f64_div a b = Finite v \<Longrightarrow> onGrid v"
  by (auto simp: f64_div_def inf64_def zero64_def onGrid_0 round64_grid split: if_splits)

lemma f64_sub_1_not_NegZero:
  assumes "c = f64_div a b"
  shows "f64_sub (Finite 1) c \<noteq> NegZero"
proof (cases c)
  case (Finite v)
  with assms have g: "onGrid v" by (simp add: f64_div_grid)
  show ?thesis
  proof (cases "1 - v = 0")
    case True
    with Finite show ?thesis by (simp add: f64_sub_def isNaN_def isInf_def)
  next
    case False
    from onGrid_diff [OF onGrid_1 g] False have "ulpMin \<le> \<bar>1 - v\<bar>"
      by (rule onGrid_magnitude)
    then have "round64 (1 - v) \<noteq> NegZero" by (rule round64_nonzero)
    with Finite False show ?thesis by (simp add: f64_sub_def isNaN_def isInf_def)
  qed
next
  case NegZero
  have "round64 1 \<noteq> NegZero" by (rule round64_positive) simp
  with NegZero show ?thesis by (simp add: f64_sub_def isNaN_def isInf_def)
qed (simp_all add: f64_sub_def isNaN_def isInf_def inf64_def)

lemma clamp64_unit_code:
  assumes "r \<noteq> NegZero"
  shows "(if f64_lt r (Finite 0) then Finite 0 else if f64_gt r (Finite 1) then Finite 1 else r)
           = clamp64 r (Finite 0) (Finite 1)"
  using assms
  by (cases r)
     (auto simp: clamp64_def math_Max_def math_Min_def f64_gt_def f64_lt_def isNaN_def
        isZero_def)

lemma clamp_code_unit:
  assumes "r \<noteq> NaN"
  shows "inUnitInterval
           (if f64_lt r (Finite 0) then Finite 0 else if f64_gt r (Finite 1) then Finite 1 else r)"
  using assms by (auto simp: inUnitInterval_simps intro: f64_between)

lemma f64_ge_zero_not_lt: "f64_ge a (Finite 0) \<Longrightarrow> \<not> f64_lt a (Finite 0)"
  by (cases a) (auto simp: f64_ge_def f64_le_def f64_lt_def f64_eq_def isNaN_def isInf_def)

lemma f64_sub_not_NaN:
  "f64_sub (Finite 1) c = NaN \<longleftrightarrow> c = NaN"
  by (cases c) (auto simp: f64_sub_def isNaN_def isInf_def inf64_def round64_not_NaN)

lemma f64_div_not_NaN:
  assumes "f64_ge a (Finite 0)" and "\<not> f64_le b (Finite 0)" and "b \<noteq> NaN"
    and "\<not> (a = PInf \<and> b = PInf)"
  shows "f64_div a b \<noteq> NaN"
proof -
  from assms(2,3) have b: "b = PInf \<or> (\<exists>y. b = Finite y \<and> 0 < y)"
    by (cases b) (auto simp: f64_le_def f64_lt_def f64_eq_def isNaN_def isInf_def)
  from assms(1) show ?thesis
  proof (cases rule: f64_ge_zero_cases)
    case 1
    with b assms(4) show ?thesis
      by (auto simp: f64_div_def isNaN_def isInf_def isZero_def inf64_def)
  next
    case 2
    with b show ?thesis
      by (auto simp: f64_div_def isNaN_def isInf_def isZero_def zero64_def)
  next
    case (3 x)
    with b show ?thesis
      by (auto simp: f64_div_def isNaN_def isInf_def isZero_def zero64_def round64_not_NaN)
  qed
qed

lemma ComputeBudgetRemaining_unfold:
  assumes "f64_ge errorRate (Finite 0)"
    and "\<not> f64_le (f64_sub (Finite 1) objective) (Finite 0)"
  shows "ComputeBudgetRemaining errorRate objective
           = (let r = f64_sub (Finite 1) (f64_div errorRate (f64_sub (Finite 1) objective))
              in if f64_lt r (Finite 0) then Finite 0
                 else if f64_gt r (Finite 1) then Finite 1 else r)"
  using assms(2) f64_ge_zero_not_lt [OF assms(1)]
  by (simp add: ComputeBudgetRemaining_def Let_def)

text \<open>
  Claim C4, as amended. For every \<open>errorRate \<ge> 0\<close> and every objective, with
  \<open>errorBudget = 1 - objective\<close>: if \<open>errorBudget \<le> 0\<close> then \<open>ComputeBurnRate\<close> and
  \<open>ComputeBudgetRemaining\<close> return 0; otherwise \<open>ComputeBurnRate\<close> returns
  \<open>errorRate / errorBudget\<close> and \<open>ComputeBudgetRemaining\<close> returns
  \<open>clamp(1 - errorRate / errorBudget, 0, 1)\<close>. The budget remaining lies in \<open>[0, 1]\<close>
  unless the objective is NaN, or \<open>errorRate\<close> and \<open>errorBudget\<close> are both \<open>+Inf\<close>.
\<close>

theorem ComputeBurnRate_ComputeBudgetRemaining_spec:
  assumes "f64_ge errorRate (Finite 0)"
  shows "(f64_le (f64_sub (Finite 1) objective) (Finite 0) \<longrightarrow>
            ComputeBurnRate errorRate objective = Finite 0 \<and>
            ComputeBudgetRemaining errorRate objective = Finite 0)
       \<and> (\<not> f64_le (f64_sub (Finite 1) objective) (Finite 0) \<longrightarrow>
            ComputeBurnRate errorRate objective
              = f64_div errorRate (f64_sub (Finite 1) objective) \<and>
            ComputeBudgetRemaining errorRate objective
              = clamp64 (f64_sub (Finite 1) (f64_div errorRate (f64_sub (Finite 1) objective)))
                  (Finite 0) (Finite 1))
       \<and> (objective \<noteq> NaN \<and> \<not> (errorRate = PInf \<and> f64_sub (Finite 1) objective = PInf) \<longrightarrow>
            inUnitInterval (ComputeBudgetRemaining errorRate objective))"
proof (intro conjI impI)
  assume "f64_le (f64_sub (Finite 1) objective) (Finite 0)"
  then show "ComputeBurnRate errorRate objective = Finite 0"
    and "ComputeBudgetRemaining errorRate objective = Finite 0"
    by (simp_all add: ComputeBurnRate_def ComputeBudgetRemaining_def)
next
  assume b: "\<not> f64_le (f64_sub (Finite 1) objective) (Finite 0)"
  then show "ComputeBurnRate errorRate objective
               = f64_div errorRate (f64_sub (Finite 1) objective)"
    by (simp add: ComputeBurnRate_def)
  have "f64_sub (Finite 1) (f64_div errorRate (f64_sub (Finite 1) objective)) \<noteq> NegZero"
    by (rule f64_sub_1_not_NegZero) (rule refl)
  then show "ComputeBudgetRemaining errorRate objective
               = clamp64 (f64_sub (Finite 1) (f64_div errorRate (f64_sub (Finite 1) objective)))
                   (Finite 0) (Finite 1)"
    unfolding ComputeBudgetRemaining_unfold [OF assms b] Let_def by (rule clamp64_unit_code)
next
  assume o: "objective \<noteq> NaN \<and> \<not> (errorRate = PInf \<and> f64_sub (Finite 1) objective = PInf)"
  show "inUnitInterval (ComputeBudgetRemaining errorRate objective)"
  proof (cases "f64_le (f64_sub (Finite 1) objective) (Finite 0)")
    case True
    then show ?thesis by (simp add: ComputeBudgetRemaining_def inUnitInterval_simps)
  next
    case False
    from o have "f64_sub (Finite 1) objective \<noteq> NaN" by (simp add: f64_sub_not_NaN)
    with assms False o
    have "f64_div errorRate (f64_sub (Finite 1) objective) \<noteq> NaN"
      by (intro f64_div_not_NaN) simp_all
    then have "f64_sub (Finite 1) (f64_div errorRate (f64_sub (Finite 1) objective)) \<noteq> NaN"
      by (simp add: f64_sub_not_NaN)
    then show ?thesis
      unfolding ComputeBudgetRemaining_unfold [OF assms False] Let_def by (rule clamp_code_unit)
  qed
qed

subsection \<open>The math on concrete numbers\<close>

lemma div_99_100: "f64_div (Finite 99) (Finite 100) = Finite (4458563631096791 / 2 ^ 52)"
proof -
  have "round64 (99 / 100) = Finite (4458563631096791 / 2 ^ 52)"
    by (subst round64_value [where e = "- 53" and m = 8917127262193582])
       (simp_all add: roundHalfEven_def Let_def overflow64_def)
  then show ?thesis by (simp add: f64_div_def isNaN_def isInf_def isZero_def)
qed

lemma sub_1_div_99_100:
  "f64_sub (Finite 1) (Finite (4458563631096791 / 2 ^ 52)) = Finite (45035996273705 / 2 ^ 52)"
proof -
  have "round64 (45035996273705 / 2 ^ 52) = Finite (45035996273705 / 2 ^ 52)"
    by (subst round64_value [where e = "- 59" and m = 5764607523034240])
       (simp_all add: roundHalfEven_def Let_def overflow64_def)
  then show ?thesis by (simp add: f64_sub_def isNaN_def isInf_def)
qed

text \<open>
  On 99 good events of 100 the value is the double nearest to 0.99 and the error rate
  the double \<open>1 - 0.99 = 0.010000000000000009\<close>; on no traffic the result is the
  insufficient-data one.
\<close>

theorem ComputeSLI_spec_witness:
  "f64_ge (Finite 99) (Finite 0) \<and> f64_ge (Finite 100) (Finite 0)
   \<and> f64_gt (Finite 100) (Finite 0)
   \<and> \<not> sli_InsufficientData (ComputeSLI (Finite 99) (Finite 100))
   \<and> sli_Value (ComputeSLI (Finite 99) (Finite 100)) = Finite (4458563631096791 / 2 ^ 52)
   \<and> sli_ErrorRate (ComputeSLI (Finite 99) (Finite 100)) = Finite (45035996273705 / 2 ^ 52)
   \<and> inUnitInterval (sli_Value (ComputeSLI (Finite 99) (Finite 100)))
   \<and> f64_ge (Finite 7) (Finite 0) \<and> f64_eq (Finite 0) (Finite 0)
   \<and> sli_Value (ComputeSLI (Finite 7) (Finite 0)) = Finite 0
   \<and> sli_ErrorRate (ComputeSLI (Finite 7) (Finite 0)) = Finite 0
   \<and> sli_InsufficientData (ComputeSLI (Finite 7) (Finite 0))"
proof -
  have c: "f64_ge (Finite 99) (Finite 0)" "f64_ge (Finite 100) (Finite 0)"
    "f64_gt (Finite 100) (Finite 0)" "f64_ge (Finite 7) (Finite 0)"
    "f64_ge (Finite 0) (Finite 0)" "f64_eq (Finite 0) (Finite 0)"
    by (simp_all add: f64_ge_def f64_gt_def f64_le_def f64_lt_def f64_eq_def isNaN_def
          isInf_def)
  have m: "min64 (Finite 99) (Finite 100) = Finite 99"
    by (simp add: min64_def f64_le_def f64_lt_def isNaN_def)
  have x: "math_Max (Finite 0) (Finite (45035996273705 / 2 ^ 52))
             = Finite (45035996273705 / 2 ^ 52)"
    by (simp add: math_Max_def isNaN_def isZero_def f64_gt_def f64_lt_def)
  note s = ComputeSLI_spec [OF c(1) c(2)]
  note z = ComputeSLI_spec [OF c(4) c(5)]
  from s c(3) have i: "\<not> sli_InsufficientData (ComputeSLI (Finite 99) (Finite 100))"
    by blast
  from s c(3) have "sli_Value (ComputeSLI (Finite 99) (Finite 100))
                      = f64_div (min64 (Finite 99) (Finite 100)) (Finite 100)"
    by blast
  then have v: "sli_Value (ComputeSLI (Finite 99) (Finite 100))
                  = Finite (4458563631096791 / 2 ^ 52)"
    by (simp only: m div_99_100)
  from s c(3) have "sli_ErrorRate (ComputeSLI (Finite 99) (Finite 100))
                      = math_Max (Finite 0)
                          (f64_sub (Finite 1) (sli_Value (ComputeSLI (Finite 99) (Finite 100))))"
    by blast
  then have e: "sli_ErrorRate (ComputeSLI (Finite 99) (Finite 100))
                  = Finite (45035996273705 / 2 ^ 52)"
    by (simp only: v sub_1_div_99_100 x)
  from s c(3) have u: "inUnitInterval (sli_Value (ComputeSLI (Finite 99) (Finite 100)))"
    by blast
  from z c(6) have n: "sli_Value (ComputeSLI (Finite 7) (Finite 0)) = Finite 0"
    "sli_ErrorRate (ComputeSLI (Finite 7) (Finite 0)) = Finite 0"
    "sli_InsufficientData (ComputeSLI (Finite 7) (Finite 0))"
    by blast+
  from c i v e u n show ?thesis by blast
qed

text \<open>
  With \<open>good = total = +Inf\<close> both are at least 0, the total is positive, and the value
  is \<open>Inf / Inf = NaN\<close>, outside \<open>[0, 1]\<close>.
\<close>

theorem ComputeSLI_counterexample:
  "f64_ge PInf (Finite 0) \<and> f64_gt PInf (Finite 0)
   \<and> sli_Value (ComputeSLI PInf PInf) = NaN
   \<and> \<not> inUnitInterval (sli_Value (ComputeSLI PInf PInf))"
  by (simp add: ComputeSLI_def Let_def f64_div_def f64_ge_def f64_gt_def f64_le_def f64_lt_def
        f64_eq_def isNaN_def isInf_def inUnitInterval_simps)

lemma sub_1_objective:
  "f64_sub (Finite 1) (Finite (8106479329266893 / 2 ^ 53)) = Finite (900719925474099 / 2 ^ 53)"
proof -
  have "round64 (900719925474099 / 2 ^ 53) = Finite (900719925474099 / 2 ^ 53)"
    by (subst round64_value [where e = "- 56" and m = 7205759403792792])
       (simp_all add: roundHalfEven_def Let_def overflow64_def)
  then show ?thesis by (simp add: f64_sub_def isNaN_def isInf_def)
qed

lemma div_errorRate_budget:
  "f64_div (Finite (5764607523034235 / 2 ^ 58)) (Finite (900719925474099 / 2 ^ 53))
     = Finite (7205759403792795 / 2 ^ 55)"
proof -
  have "round64 (5764607523034235 / 2 ^ 58 / (900719925474099 / 2 ^ 53))
          = Finite (7205759403792795 / 2 ^ 55)"
    by (subst round64_value [where e = "- 55" and m = 7205759403792795])
       (simp_all add: roundHalfEven_def Let_def overflow64_def)
  then show ?thesis by (simp add: f64_div_def isNaN_def isInf_def isZero_def)
qed

lemma sub_1_consumed:
  "f64_sub (Finite 1) (Finite (7205759403792795 / 2 ^ 55)) = Finite (7205759403792793 / 2 ^ 53)"
proof -
  have "round64 (1 - 7205759403792795 / 2 ^ 55) = Finite (7205759403792793 / 2 ^ 53)"
    by (subst round64_value [where e = "- 53" and m = 7205759403792793])
       (simp_all add: roundHalfEven_def Let_def overflow64_def)
  then show ?thesis by (simp add: f64_sub_def isNaN_def isInf_def)
qed

text \<open>
  For the doubles nearest to 0.02 and 0.9 (error rate and objective) the burn rate is
  0.20000000000000004 and the budget remaining 0.7999999999999999; for the objective 1
  the error budget is 0 and both results are 0.
\<close>

theorem ComputeBurnRate_ComputeBudgetRemaining_spec_witness:
  "f64_ge (Finite (5764607523034235 / 2 ^ 58)) (Finite 0)
   \<and> \<not> f64_le (f64_sub (Finite 1) (Finite (8106479329266893 / 2 ^ 53))) (Finite 0)
   \<and> ComputeBurnRate (Finite (5764607523034235 / 2 ^ 58)) (Finite (8106479329266893 / 2 ^ 53))
       = Finite (7205759403792795 / 2 ^ 55)
   \<and> ComputeBudgetRemaining (Finite (5764607523034235 / 2 ^ 58))
         (Finite (8106479329266893 / 2 ^ 53))
       = Finite (7205759403792793 / 2 ^ 53)
   \<and> inUnitInterval (ComputeBudgetRemaining (Finite (5764607523034235 / 2 ^ 58))
         (Finite (8106479329266893 / 2 ^ 53)))
   \<and> f64_le (f64_sub (Finite 1) (Finite 1)) (Finite 0)
   \<and> ComputeBurnRate (Finite (5764607523034235 / 2 ^ 58)) (Finite 1) = Finite 0
   \<and> ComputeBudgetRemaining (Finite (5764607523034235 / 2 ^ 58)) (Finite 1) = Finite 0"
proof -
  let ?e = "Finite (5764607523034235 / 2 ^ 58)"
  let ?o = "Finite (8106479329266893 / 2 ^ 53)"
  have c: "f64_ge ?e (Finite 0)"
    by (simp add: f64_ge_def f64_le_def f64_lt_def f64_eq_def isNaN_def isInf_def)
  have b0: "\<not> f64_le (Finite (900719925474099 / 2 ^ 53)) (Finite 0)"
    by (simp add: f64_le_def f64_lt_def f64_eq_def isNaN_def isInf_def)
  have b: "\<not> f64_le (f64_sub (Finite 1) ?o) (Finite 0)"
    unfolding sub_1_objective by (rule b0)
  have z0: "f64_le (Finite 0) (Finite 0)"
    by (simp add: f64_le_def f64_lt_def f64_eq_def isNaN_def isInf_def)
  have z1: "f64_sub (Finite 1) (Finite 1) = Finite 0"
    by (simp add: f64_sub_def isNaN_def isInf_def)
  have z: "f64_le (f64_sub (Finite 1) (Finite 1)) (Finite 0)"
    unfolding z1 by (rule z0)
  have k: "clamp64 (Finite (7205759403792793 / 2 ^ 53)) (Finite 0) (Finite 1)
             = Finite (7205759403792793 / 2 ^ 53)"
    by (simp add: clamp64_def math_Max_def math_Min_def isNaN_def isZero_def f64_gt_def
          f64_lt_def)
  note s = ComputeBurnRate_ComputeBudgetRemaining_spec [OF c, of ?o]
  note t = ComputeBurnRate_ComputeBudgetRemaining_spec [OF c, of "Finite 1"]
  from s b have "ComputeBurnRate ?e ?o = f64_div ?e (f64_sub (Finite 1) ?o)"
    by blast
  then have r: "ComputeBurnRate ?e ?o = Finite (7205759403792795 / 2 ^ 55)"
    by (simp only: sub_1_objective div_errorRate_budget)
  from s b have "ComputeBudgetRemaining ?e ?o
                   = clamp64 (f64_sub (Finite 1) (f64_div ?e (f64_sub (Finite 1) ?o)))
                       (Finite 0) (Finite 1)"
    by blast
  then have g: "ComputeBudgetRemaining ?e ?o = Finite (7205759403792793 / 2 ^ 53)"
    by (simp only: sub_1_objective div_errorRate_budget sub_1_consumed k)
  have n: "?o \<noteq> NaN \<and> \<not> (?e = PInf \<and> f64_sub (Finite 1) ?o = PInf)"
    by simp
  from s n have u: "inUnitInterval (ComputeBudgetRemaining ?e ?o)"
    by blast
  from t z have d: "ComputeBurnRate ?e (Finite 1) = Finite 0"
    "ComputeBudgetRemaining ?e (Finite 1) = Finite 0"
    by blast+
  from c b r g u z d show ?thesis by blast
qed

text \<open>
  With the objective NaN no guard holds and both functions return NaN; with the error
  rate \<open>+Inf\<close> and the objective \<open>-Inf\<close> the budget remaining is NaN as well. NaN is
  outside \<open>[0, 1]\<close>.
\<close>

theorem ComputeBudgetRemaining_counterexample:
  "f64_ge (Finite 0) (Finite 0)
   \<and> \<not> f64_le (f64_sub (Finite 1) NaN) (Finite 0)
   \<and> ComputeBurnRate (Finite 0) NaN = NaN
   \<and> ComputeBudgetRemaining (Finite 0) NaN = NaN
   \<and> \<not> inUnitInterval (ComputeBudgetRemaining (Finite 0) NaN)
   \<and> f64_ge PInf (Finite 0)
   \<and> \<not> f64_le (f64_sub (Finite 1) NInf) (Finite 0)
   \<and> ComputeBudgetRemaining PInf NInf = NaN
   \<and> \<not> inUnitInterval (ComputeBudgetRemaining PInf NInf)"
  by (simp add: ComputeBurnRate_def ComputeBudgetRemaining_def Let_def f64_div_def f64_sub_def
        f64_ge_def f64_gt_def f64_le_def f64_lt_def f64_eq_def isNaN_def isInf_def inf64_def
        inUnitInterval_simps)

text \<open>
  Rounding decides a comparison with a threshold: for the doubles nearest to 0.014 and
  0.999 the burn rate is 13.999999999999988, below 14.
\<close>

lemma ComputeBurnRate_rounding:
  "ComputeBurnRate (Finite (8070450532247929 / 2 ^ 59)) (Finite (8998192055486251 / 2 ^ 53))
     = Finite (7881299347898361 / 2 ^ 49)
   \<and> \<not> f64_ge (ComputeBurnRate (Finite (8070450532247929 / 2 ^ 59))
                 (Finite (8998192055486251 / 2 ^ 53))) (Finite 14)"
proof -
  have "round64 (9007199254741 / 2 ^ 53) = Finite (9007199254741 / 2 ^ 53)"
    by (subst round64_value [where e = "- 62" and m = 4611686018427392])
       (simp_all add: roundHalfEven_def Let_def overflow64_def)
  then have s: "f64_sub (Finite 1) (Finite (8998192055486251 / 2 ^ 53))
                  = Finite (9007199254741 / 2 ^ 53)"
    by (simp add: f64_sub_def isNaN_def isInf_def)
  have "round64 (8070450532247929 / 2 ^ 59 / (9007199254741 / 2 ^ 53))
          = Finite (7881299347898361 / 2 ^ 49)"
    by (subst round64_value [where e = "- 49" and m = 7881299347898361])
       (simp_all add: roundHalfEven_def Let_def overflow64_def)
  then have d: "f64_div (Finite (8070450532247929 / 2 ^ 59)) (Finite (9007199254741 / 2 ^ 53))
                  = Finite (7881299347898361 / 2 ^ 49)"
    by (simp add: f64_div_def isNaN_def isInf_def isZero_def)
  have b: "\<not> f64_le (Finite (9007199254741 / 2 ^ 53)) (Finite 0)"
    by (simp add: f64_le_def f64_lt_def f64_eq_def isNaN_def isInf_def)
  have r: "ComputeBurnRate (Finite (8070450532247929 / 2 ^ 59))
             (Finite (8998192055486251 / 2 ^ 53)) = Finite (7881299347898361 / 2 ^ 49)"
    unfolding ComputeBurnRate_def Let_def s using b d by (simp only: if_False)
  have "\<not> f64_ge (Finite (7881299347898361 / 2 ^ 49)) (Finite 14)"
    by (simp add: f64_ge_def f64_le_def f64_lt_def f64_eq_def isNaN_def isInf_def)
  with r show ?thesis by (simp only: simp_thms)
qed

subsection \<open>The policy engine\<close>

lemma evaluateRule_Triggered: "rr_Triggered (evaluateRule rule ev) \<longleftrightarrow> triggers ev rule"
  by (auto simp: evaluateRule_def triggers_def Let_def split: option.splits)

lemma evaluateRule_missing:
  assumes "er_BurnRates ev (rule_ShortWindow rule) = None
             \<or> er_BurnRates ev (rule_LongWindow rule) = None"
  shows "rr_Reason (evaluateRule rule ev) = ''rule '' @ rule_Name rule @ '': missing window data''"
  using assms by (auto simp: evaluateRule_def Let_def split: option.splits)

text \<open>
  Claim C2. For every burn rule and every evaluation result, the rule's \<open>RuleResult\<close>
  is triggered iff both the short and the long window are keys of the burn-rate map and
  both burn rates are at least the rule's threshold; when either key is missing the
  result is un-triggered and its reason contains the phrase \<open>missing window data\<close>.
\<close>

theorem evaluateRule_spec:
  "(rr_Triggered (evaluateRule rule ev) \<longleftrightarrow>
      (\<exists>shortBurn longBurn.
         er_BurnRates ev (rule_ShortWindow rule) = Some shortBurn
       \<and> er_BurnRates ev (rule_LongWindow rule) = Some longBurn
       \<and> f64_ge (br_BurnRate shortBurn) (rule_Threshold rule)
       \<and> f64_ge (br_BurnRate longBurn) (rule_Threshold rule)))
   \<and> (rule_ShortWindow rule \<notin> dom (er_BurnRates ev)
        \<or> rule_LongWindow rule \<notin> dom (er_BurnRates ev) \<longrightarrow>
          \<not> rr_Triggered (evaluateRule rule ev)
        \<and> sublist ''missing window data'' (rr_Reason (evaluateRule rule ev)))"
proof (intro conjI impI)
  show "rr_Triggered (evaluateRule rule ev) \<longleftrightarrow>
      (\<exists>shortBurn longBurn.
         er_BurnRates ev (rule_ShortWindow rule) = Some shortBurn
       \<and> er_BurnRates ev (rule_LongWindow rule) = Some longBurn
       \<and> f64_ge (br_BurnRate shortBurn) (rule_Threshold rule)
       \<and> f64_ge (br_BurnRate longBurn) (rule_Threshold rule))"
    by (simp add: evaluateRule_Triggered triggers_def)
next
  assume "rule_ShortWindow rule \<notin> dom (er_BurnRates ev)
            \<or> rule_LongWindow rule \<notin> dom (er_BurnRates ev)"
  then have none: "er_BurnRates ev (rule_ShortWindow rule) = None
                     \<or> er_BurnRates ev (rule_LongWindow rule) = None"
    by (auto simp: dom_def)
  then show "\<not> rr_Triggered (evaluateRule rule ev)"
    by (auto simp: evaluateRule_Triggered triggers_def)
  have "rr_Reason (evaluateRule rule ev)
          = (''rule '' @ rule_Name rule @ '': '') @ ''missing window data'' @ []"
    using evaluateRule_missing [OF none] by simp
  then show "sublist ''missing window data'' (rr_Reason (evaluateRule rule ev))"
    by (simp only: sublist_appendI)
qed

theorem evaluateRule_spec_witness:
  "rr_Triggered (evaluateRule fastBurnRule (testEvalResult False False fastBurnRates))
   \<and> \<not> rr_Triggered (evaluateRule fastBurnRule (testEvalResult False False healthyRates))
   \<and> \<not> rr_Triggered
         (evaluateRule fastBurnRule (testEvalResult False False [''5m'' \<mapsto> burnRateOf (Finite 15)]))
   \<and> sublist ''missing window data''
        (rr_Reason
          (evaluateRule fastBurnRule (testEvalResult False False [''5m'' \<mapsto> burnRateOf (Finite 15)])))"
  using evaluateRule_spec [of fastBurnRule "testEvalResult False False fastBurnRates"]
    evaluateRule_spec [of fastBurnRule "testEvalResult False False healthyRates"]
    evaluateRule_spec [of fastBurnRule "testEvalResult False False [''5m'' \<mapsto> burnRateOf (Finite 15)]"]
  by (simp add: fastBurnRule_def testEvalResult_def fastBurnRates_def healthyRates_def
        burnRateOf_def f64_compare_Finite)

lemma valid_decisions:
  "DecisionALLOW \<noteq> DecisionWARN" "DecisionALLOW \<noteq> DecisionBLOCK"
  "DecisionWARN \<noteq> DecisionBLOCK"
  "severity DecisionALLOW = 0" "severity DecisionWARN = 1" "severity DecisionBLOCK = 2"
  by (simp_all add: DecisionALLOW_def DecisionWARN_def DecisionBLOCK_def severity_def)

lemma applyRule_decision:
  assumes "validDecision (gr_Decision g)"
  shows "validDecision (gr_Decision (applyRule ev r g))"
    and "severity (gr_Decision (applyRule ev r g))
           = (if triggers ev r then max (severity (gr_Decision g)) (severity (rule_Action r))
              else severity (gr_Decision g))"
proof -
  have a: "rr_Action (evaluateRule r ev) = rule_Action r"
    by (simp add: evaluateRule_def Let_def split: option.splits)
  show "validDecision (gr_Decision (applyRule ev r g))"
    using assms by (simp add: applyRule_def Let_def validDecision_def)
  show "severity (gr_Decision (applyRule ev r g))
           = (if triggers ev r then max (severity (gr_Decision g)) (severity (rule_Action r))
              else severity (gr_Decision g))"
  proof (cases "triggers ev r")
    case False
    then show ?thesis
      by (simp add: applyRule_def Let_def evaluateRule_Triggered)
  next
    case True
    have le2: "severity (gr_Decision g) \<le> 2"
      by (simp add: severity_def)
    consider (block) "rule_Action r = DecisionBLOCK"
      | (warn) "rule_Action r = DecisionWARN"
      | (other) "rule_Action r \<noteq> DecisionBLOCK" "rule_Action r \<noteq> DecisionWARN"
      by blast
    then show ?thesis
    proof cases
      case block
      then have "gr_Decision (applyRule ev r g) = DecisionBLOCK"
        using True by (simp add: applyRule_def Let_def evaluateRule_Triggered a)
      with block True le2 show ?thesis by (simp add: valid_decisions)
    next
      case warn
      show ?thesis
      proof (cases "gr_Decision g = DecisionBLOCK")
        case b: True
        then have "gr_Decision (applyRule ev r g) = DecisionBLOCK"
          using True warn
          by (simp add: applyRule_def Let_def evaluateRule_Triggered a valid_decisions)
        with b warn True show ?thesis by (simp add: valid_decisions)
      next
        case nb: False
        then have "gr_Decision (applyRule ev r g) = DecisionWARN"
          using True warn
          by (simp add: applyRule_def Let_def evaluateRule_Triggered a valid_decisions)
        moreover have "severity (gr_Decision g) \<le> 1"
          using nb assms by (auto simp: validDecision_def valid_decisions)
        ultimately show ?thesis using warn True by (simp add: valid_decisions)
      qed
    next
      case other
      then have "gr_Decision (applyRule ev r g) = gr_Decision g"
        using True by (simp add: applyRule_def Let_def evaluateRule_Triggered a)
      moreover have "severity (rule_Action r) = 0"
        using other by (simp add: severity_def DecisionBLOCK_def DecisionWARN_def)
      ultimately show ?thesis using True by simp
    qed
  qed
qed

lemma ruleSeverities_Cons:
  "ruleSeverities ev (r # rs)
     = (if triggers ev r then insert (severity (rule_Action r)) (ruleSeverities ev rs)
        else ruleSeverities ev rs)"
  by (auto simp: ruleSeverities_def)

lemma finite_ruleSeverities: "finite (ruleSeverities ev rs)"
  by (simp add: ruleSeverities_def)

lemma fold_applyRule_decision:
  assumes "validDecision (gr_Decision g)"
  shows "validDecision (gr_Decision (fold (applyRule ev) rs g))
       \<and> severity (gr_Decision (fold (applyRule ev) rs g))
           = Max (insert (severity (gr_Decision g)) (ruleSeverities ev rs))"
  using assms
proof (induction rs arbitrary: g)
  case Nil
  then show ?case by (simp add: ruleSeverities_def)
next
  case (Cons r rs)
  have v: "validDecision (gr_Decision (applyRule ev r g))"
    using Cons.prems by (rule applyRule_decision)
  have fin: "finite (ruleSeverities ev rs)" by (rule finite_ruleSeverities)
  have "Max (insert (severity (gr_Decision (applyRule ev r g))) (ruleSeverities ev rs))
          = Max (insert (severity (gr_Decision g)) (ruleSeverities ev (r # rs)))"
  proof (cases "triggers ev r")
    case True
    have "Max (insert (max (severity (gr_Decision g)) (severity (rule_Action r)))
                 (ruleSeverities ev rs))
            = Max (insert (severity (gr_Decision g))
                     (insert (severity (rule_Action r)) (ruleSeverities ev rs)))"
      using fin by (cases "ruleSeverities ev rs = {}") (simp_all add: max.assoc)
    with True show ?thesis
      using applyRule_decision(2) [OF Cons.prems, of ev r] by (simp add: ruleSeverities_Cons)
  next
    case False
    then show ?thesis
      using applyRule_decision(2) [OF Cons.prems, of ev r] by (simp add: ruleSeverities_Cons)
  qed
  with Cons.IH [OF v] show ?case by simp
qed

lemma applyModifiers_decision:
  "validDecision (gr_Decision (applyModifiers ev))"
  "severity (gr_Decision (applyModifiers ev))
     = (if er_IsStale ev \<or> er_InsufficientData ev then 1 else 0)"
  by (simp_all add: applyModifiers_def Let_def validDecision_def valid_decisions)

lemma applyModifiers_reasons:
  "gr_Reasons (applyModifiers ev)
     = (if er_IsStale ev then [''data is stale''] else [])
       @ (if er_InsufficientData ev then [''insufficient data (zero traffic)''] else [])"
  by (simp add: applyModifiers_def Let_def)

lemma applyRule_reasons:
  "gr_Reasons (applyRule ev r g)
     = gr_Reasons g @ (if triggers ev r then [rr_Reason (evaluateRule r ev)] else [])"
  by (simp add: applyRule_def Let_def evaluateRule_Triggered)

lemma fold_applyRule_reasons:
  "gr_Reasons (fold (applyRule ev) rs g)
     = gr_Reasons g @ map (\<lambda>r. rr_Reason (evaluateRule r ev)) (filter (triggers ev) rs)"
  by (induction rs arbitrary: g) (simp_all add: applyRule_reasons)

lemma applyRule_keeps_BLOCK:
  "gr_Decision g = DecisionBLOCK \<Longrightarrow> gr_Decision (applyRule ev r g) = DecisionBLOCK"
  by (simp add: applyRule_def Let_def)

lemma fold_keeps_BLOCK:
  "gr_Decision g = DecisionBLOCK \<Longrightarrow> gr_Decision (fold (applyRule ev) rs g) = DecisionBLOCK"
  by (induction rs arbitrary: g) (simp_all add: applyRule_keeps_BLOCK)

lemma prefix_keeps_BLOCK:
  assumes "n \<le> m"
    and "gr_Decision (fold (applyRule ev) (take n rs) g) = DecisionBLOCK"
  shows "gr_Decision (fold (applyRule ev) (take m rs) g) = DecisionBLOCK"
proof -
  have "take m rs = take n rs @ drop n (take m rs)"
    using assms(1) by (metis append_take_drop_id min.absorb1 take_take)
  then have "fold (applyRule ev) (take m rs) g
               = fold (applyRule ev) (drop n (take m rs)) (fold (applyRule ev) (take n rs) g)"
    by (metis fold_append comp_apply)
  with assms(2) show ?thesis by (simp add: fold_keeps_BLOCK)
qed

lemma contributions_Max:
  "Max (insert (severity DecisionALLOW) (contributions s ev))
     = Max (insert (severity (gr_Decision (applyModifiers ev)))
         (ruleSeverities ev (Rules (spec_BurnPolicy (slo_Spec s)))))"
proof -
  define R where "R = ruleSeverities ev (Rules (spec_BurnPolicy (slo_Spec s)))"
  have fin: "finite R" unfolding R_def by (rule finite_ruleSeverities)
  have R: "{severity (rule_Action rule) | rule.
             rule \<in> set (Rules (spec_BurnPolicy (slo_Spec s))) \<and> triggers ev rule} = R"
    unfolding R_def ruleSeverities_def by auto
  have w: "severity ''WARN'' = 1" by (simp add: severity_def)
  show ?thesis
  proof (cases "er_IsStale ev \<or> er_InsufficientData ev")
    case True
    then have "contributions s ev = insert 1 R"
      unfolding contributions_def R w by auto
    moreover have "Max (insert 0 (insert 1 R)) = Max (insert (1::nat) R)"
      using fin by simp
    ultimately show ?thesis
      using True by (simp add: applyModifiers_decision valid_decisions flip: R_def)
  next
    case False
    then have "contributions s ev = R"
      unfolding contributions_def R by simp
    with False show ?thesis
      by (simp add: applyModifiers_decision valid_decisions flip: R_def)
  qed
qed

lemma Engine_Evaluate_Some:
  "\<exists>g. Engine_Evaluate (Some s) (Some ev) = Some g
       \<and> gr_Decision g = gr_Decision (fold (applyRule ev) (Rules (spec_BurnPolicy (slo_Spec s)))
                                        (applyModifiers ev))"
  by (simp add: Engine_Evaluate_def Let_def)

lemma severity_le_2: "severity d \<le> 2"
  by (simp add: severity_def)

lemma validDecision_severity:
  "validDecision d \<Longrightarrow> severity d = 2 \<longleftrightarrow> d = DecisionBLOCK"
  "validDecision d \<Longrightarrow> severity d = 1 \<longleftrightarrow> d = DecisionWARN"
  "validDecision d \<Longrightarrow> severity d = 0 \<longleftrightarrow> d = DecisionALLOW"
  by (auto simp: validDecision_def valid_decisions)

lemma rules_decision:
  "validDecision (gr_Decision (fold (applyRule ev) rs (applyModifiers ev)))"
  "severity (gr_Decision (fold (applyRule ev) rs (applyModifiers ev)))
     = Max (insert (severity (gr_Decision (applyModifiers ev))) (ruleSeverities ev rs))"
  using fold_applyRule_decision [OF applyModifiers_decision(1), of ev rs] by simp_all

text \<open>
  Claim C1. For every SLO spec and every non-nil evaluation result, the decision of the
  \<open>GateResult\<close> that \<open>Engine.Evaluate\<close> returns is the severity-maximum
  (\<open>BLOCK > WARN > ALLOW\<close>) over the gating modifiers (\<open>isStale\<close> and
  \<open>insufficientData\<close> each contribute \<open>WARN\<close>) and the actions of all triggered burn
  rules. In particular, when a rule triggers with action \<open>BLOCK\<close> the decision is
  \<open>BLOCK\<close> whatever the two flags are, and once the decision is \<open>BLOCK\<close> after some
  rules, it is \<open>BLOCK\<close> after every later rule: a triggered \<open>WARN\<close> rule never
  downgrades it.
\<close>

theorem Engine_Evaluate_decision:
  "\<exists>g. Engine_Evaluate (Some s) (Some ev) = Some g
     \<and> (gr_Decision g = DecisionALLOW \<or> gr_Decision g = DecisionWARN
          \<or> gr_Decision g = DecisionBLOCK)
     \<and> severity (gr_Decision g) = Max (insert (severity DecisionALLOW) (contributions s ev))
     \<and> ((\<exists>rule\<in>set (Rules (spec_BurnPolicy (slo_Spec s))).
            rr_Triggered (evaluateRule rule ev) \<and> rule_Action rule = DecisionBLOCK)
          \<longrightarrow> gr_Decision g = DecisionBLOCK)
     \<and> (\<forall>n m. n \<le> m
            \<and> gr_Decision (fold (applyRule ev) (take n (Rules (spec_BurnPolicy (slo_Spec s))))
                             (applyModifiers ev)) = DecisionBLOCK
          \<longrightarrow> gr_Decision (fold (applyRule ev) (take m (Rules (spec_BurnPolicy (slo_Spec s))))
                              (applyModifiers ev)) = DecisionBLOCK)"
proof -
  define rs where "rs = Rules (spec_BurnPolicy (slo_Spec s))"
  define d where "d = gr_Decision (fold (applyRule ev) rs (applyModifiers ev))"
  from Engine_Evaluate_Some [of s ev]
  obtain g where g: "Engine_Evaluate (Some s) (Some ev) = Some g" "gr_Decision g = d"
    unfolding d_def rs_def by blast
  have valid: "validDecision d"
    unfolding d_def by (rule rules_decision)
  have sev: "severity d = Max (insert (severity DecisionALLOW) (contributions s ev))"
    unfolding d_def rs_def by (simp add: rules_decision contributions_Max)
  have block: "d = DecisionBLOCK"
    if "\<exists>rule\<in>set rs. rr_Triggered (evaluateRule rule ev) \<and> rule_Action rule = DecisionBLOCK"
  proof -
    from that obtain rule where "rule \<in> set rs" "triggers ev rule"
      "rule_Action rule = DecisionBLOCK"
      by (auto simp: evaluateRule_Triggered)
    then have "2 \<in> ruleSeverities ev rs"
      unfolding ruleSeverities_def using valid_decisions(6) by force
    then have "2 \<le> Max (insert (severity (gr_Decision (applyModifiers ev)))
                           (ruleSeverities ev rs))"
      by (simp add: finite_ruleSeverities)
    then have "2 \<le> severity d"
      unfolding d_def by (simp add: rules_decision)
    with severity_le_2 [of d] have "severity d = 2" by simp
    with valid show ?thesis by (simp add: validDecision_severity)
  qed
  have mono: "gr_Decision (fold (applyRule ev) (take m rs) (applyModifiers ev)) = DecisionBLOCK"
    if "n \<le> m \<and> gr_Decision (fold (applyRule ev) (take n rs) (applyModifiers ev))
                    = DecisionBLOCK" for n m
    using that prefix_keeps_BLOCK [of n m ev rs "applyModifiers ev"] by simp
  from g valid sev block mono show ?thesis
    unfolding validDecision_def rs_def by blast
qed

theorem Engine_Evaluate_decision_witness:
  "map_option gr_Decision
     (Engine_Evaluate (Some createTestSLO) (Some (testEvalResult True True fastBurnRates)))
     = Some DecisionBLOCK"
proof -
  from Engine_Evaluate_decision [of createTestSLO "testEvalResult True True fastBurnRates"]
  obtain g where g:
    "Engine_Evaluate (Some createTestSLO) (Some (testEvalResult True True fastBurnRates)) = Some g"
    "(\<exists>rule\<in>set (Rules (spec_BurnPolicy (slo_Spec createTestSLO))).
        rr_Triggered (evaluateRule rule (testEvalResult True True fastBurnRates))
        \<and> rule_Action rule = DecisionBLOCK)
      \<longrightarrow> gr_Decision g = DecisionBLOCK"
    by blast
  have "rr_Triggered (evaluateRule fastBurnRule (testEvalResult True True fastBurnRates))
          \<and> rule_Action fastBurnRule = DecisionBLOCK"
    by (simp add: evaluateRule_Triggered triggers_def fastBurnRule_def testEvalResult_def
          fastBurnRates_def burnRateOf_def DecisionBLOCK_def f64_compare_Finite)
  then have "gr_Decision g = DecisionBLOCK"
    using g(2) by (simp add: createTestSLO_def)
  with g(1) show ?thesis by simp
qed

lemma evaluateRule_triggered_reason:
  assumes "triggers ev rule"
  shows "\<exists>shortBurn longBurn.
           er_BurnRates ev (rule_ShortWindow rule) = Some shortBurn
         \<and> er_BurnRates ev (rule_LongWindow rule) = Some longBurn
         \<and> rr_Reason (evaluateRule rule ev)
             = ruleTriggeredReason (rule_Name rule) (br_BurnRate shortBurn)
                 (br_BurnRate longBurn) (rule_Threshold rule)"
  using assms
  by (auto simp: triggers_def evaluateRule_def ruleTriggeredReason_def Let_def)

lemma ruleTriggeredReason_nonempty: "ruleTriggeredReason n a b c \<noteq> ''''"
  by (simp add: ruleTriggeredReason_def)

lemma triggered_reason_nonempty:
  "triggers ev rule \<Longrightarrow> rr_Reason (evaluateRule rule ev) \<noteq> ''''"
  using evaluateRule_triggered_reason [of ev rule] ruleTriggeredReason_nonempty by metis

text \<open>
  Claim C10. For every SLO spec and every non-nil evaluation result, the \<open>GateResult\<close>
  of \<open>Engine.Evaluate\<close> has a non-empty list of reasons, none of them the empty string:
  with no modifier set and no rule triggered the decision is \<open>ALLOW\<close> and the reasons
  are the literal \<open>all burn rate checks passed\<close>; a \<open>WARN\<close> decision comes with the
  reason of a modifier (\<open>data is stale\<close>, \<open>insufficient data (zero traffic)\<close>) or of a
  triggered rule whose action is \<open>WARN\<close>; a \<open>BLOCK\<close> decision comes with the reason of a
  triggered rule whose action is \<open>BLOCK\<close>. The reason of a triggered rule is the text
  that names the rule, its two observed burn rates and its threshold.
\<close>

theorem Engine_Evaluate_reasons:
  "\<exists>g. Engine_Evaluate (Some s) (Some ev) = Some g
     \<and> gr_Reasons g \<noteq> []
     \<and> (\<forall>reason\<in>set (gr_Reasons g). reason \<noteq> '''')
     \<and> (\<not> er_IsStale ev \<and> \<not> er_InsufficientData ev
          \<and> (\<forall>rule\<in>set (Rules (spec_BurnPolicy (slo_Spec s))).
                \<not> rr_Triggered (evaluateRule rule ev))
          \<longrightarrow> gr_Decision g = DecisionALLOW
              \<and> gr_Reasons g = [''all burn rate checks passed''])
     \<and> (gr_Decision g = DecisionWARN
          \<longrightarrow> (er_IsStale ev \<and> ''data is stale'' \<in> set (gr_Reasons g))
              \<or> (er_InsufficientData ev
                   \<and> ''insufficient data (zero traffic)'' \<in> set (gr_Reasons g))
              \<or> (\<exists>rule\<in>set (Rules (spec_BurnPolicy (slo_Spec s))). \<exists>shortBurn longBurn.
                    er_BurnRates ev (rule_ShortWindow rule) = Some shortBurn
                    \<and> er_BurnRates ev (rule_LongWindow rule) = Some longBurn
                    \<and> rr_Triggered (evaluateRule rule ev) \<and> rule_Action rule = DecisionWARN
                    \<and> rr_Reason (evaluateRule rule ev)
                        = ruleTriggeredReason (rule_Name rule) (br_BurnRate shortBurn)
                            (br_BurnRate longBurn) (rule_Threshold rule)
                    \<and> rr_Reason (evaluateRule rule ev) \<in> set (gr_Reasons g)))
     \<and> (gr_Decision g = DecisionBLOCK
          \<longrightarrow> (\<exists>rule\<in>set (Rules (spec_BurnPolicy (slo_Spec s))). \<exists>shortBurn longBurn.
                  er_BurnRates ev (rule_ShortWindow rule) = Some shortBurn
                  \<and> er_BurnRates ev (rule_LongWindow rule) = Some longBurn
                  \<and> rr_Triggered (evaluateRule rule ev) \<and> rule_Action rule = DecisionBLOCK
                  \<and> rr_Reason (evaluateRule rule ev)
                      = ruleTriggeredReason (rule_Name rule) (br_BurnRate shortBurn)
                          (br_BurnRate longBurn) (rule_Threshold rule)
                  \<and> rr_Reason (evaluateRule rule ev) \<in> set (gr_Reasons g)))"
proof -
  let ?rs = "Rules (spec_BurnPolicy (slo_Spec s))"
  let ?explained = "\<lambda>rule a reasons. \<exists>shortBurn longBurn.
      er_BurnRates ev (rule_ShortWindow rule) = Some shortBurn
      \<and> er_BurnRates ev (rule_LongWindow rule) = Some longBurn
      \<and> rr_Triggered (evaluateRule rule ev) \<and> rule_Action rule = a
      \<and> rr_Reason (evaluateRule rule ev)
          = ruleTriggeredReason (rule_Name rule) (br_BurnRate shortBurn)
              (br_BurnRate longBurn) (rule_Threshold rule)
      \<and> rr_Reason (evaluateRule rule ev) \<in> set reasons"
  define rs where "rs = ?rs"
  define r0 where "r0 = fold (applyRule ev) rs (applyModifiers ev)"
  define base where "base = gr_Reasons r0"
  define m where "m = severity (gr_Decision (applyModifiers ev))"
  have base: "base = gr_Reasons (applyModifiers ev)
                       @ map (\<lambda>r. rr_Reason (evaluateRule r ev)) (filter (triggers ev) rs)"
    unfolding base_def r0_def by (rule fold_applyRule_reasons)
  have valid: "validDecision (gr_Decision r0)"
    unfolding r0_def by (rule rules_decision)
  have sev: "severity (gr_Decision r0) = Max (insert m (ruleSeverities ev rs))"
    unfolding r0_def m_def by (rule rules_decision)
  have m: "m = (if er_IsStale ev \<or> er_InsufficientData ev then 1 else 0)"
    unfolding m_def by (rule applyModifiers_decision)
  have inMax: "Max (insert m (ruleSeverities ev rs)) \<in> insert m (ruleSeverities ev rs)"
    by (rule Max_in) (simp_all add: finite_ruleSeverities)
  have rule_reason: "\<exists>rule\<in>set rs. ?explained rule a base"
    if "severity (gr_Decision r0) \<in> ruleSeverities ev rs" "gr_Decision r0 = a"
       "a = DecisionWARN \<or> a = DecisionBLOCK" for a
  proof -
    from that(1) obtain rule where r: "rule \<in> set rs" "triggers ev rule"
      "severity (rule_Action rule) = severity (gr_Decision r0)"
      unfolding ruleSeverities_def by auto
    have "validDecision a" using that(3) by (auto simp: validDecision_def)
    have act: "rule_Action rule = a"
    proof (cases "a = DecisionWARN")
      case True
      with r(3) that(2) have "severity (rule_Action rule) = 1" by (simp add: valid_decisions)
      then show ?thesis
        using True by (simp add: severity_def DecisionWARN_def split: if_splits)
    next
      case False
      with that(3) have bl: "a = DecisionBLOCK" by simp
      with r(3) that(2) have "severity (rule_Action rule) = 2" by (simp add: valid_decisions)
      then show ?thesis
        using bl by (simp add: severity_def DecisionBLOCK_def split: if_splits)
    qed
    have mem: "rr_Reason (evaluateRule rule ev) \<in> set base"
      using r(1,2) by (simp add: base)
    from evaluateRule_triggered_reason [OF r(2)] obtain shortBurn longBurn where
      "er_BurnRates ev (rule_ShortWindow rule) = Some shortBurn"
      "er_BurnRates ev (rule_LongWindow rule) = Some longBurn"
      "rr_Reason (evaluateRule rule ev)
         = ruleTriggeredReason (rule_Name rule) (br_BurnRate shortBurn)
             (br_BurnRate longBurn) (rule_Threshold rule)"
      by blast
    moreover have "rr_Triggered (evaluateRule rule ev)"
      using r(2) by (simp add: evaluateRule_Triggered)
    ultimately have "?explained rule a base" using act mem by blast
    with r(1) show ?thesis by (rule bexI [rotated])
  qed
  define g where "g = (if gr_Decision r0 = DecisionALLOW \<and> base = []
                       then r0\<lparr>gr_Reasons := base @ [''all burn rate checks passed'']\<rparr> else r0)"
  have ev: "Engine_Evaluate (Some s) (Some ev) = Some g"
    by (simp add: Engine_Evaluate_def Let_def g_def r0_def rs_def base_def)
  have dec: "gr_Decision g = gr_Decision r0" by (simp add: g_def)
  have reas: "gr_Reasons g = (if gr_Decision r0 = DecisionALLOW \<and> base = []
                              then [''all burn rate checks passed''] else base)"
    by (simp add: g_def base_def)
  have empty_allow: "gr_Decision r0 = DecisionALLOW" if "base = []"
  proof -
    from that have "\<not> er_IsStale ev" "\<not> er_InsufficientData ev" "filter (triggers ev) rs = []"
      by (auto simp: base applyModifiers_reasons split: if_splits)
    then have "ruleSeverities ev rs = {}" "m = 0"
      by (auto simp: ruleSeverities_def m filter_empty_conv)
    with sev have "severity (gr_Decision r0) = 0" by simp
    with valid show ?thesis by (simp add: validDecision_severity)
  qed
  have nonempty: "gr_Reasons g \<noteq> []"
    using empty_allow by (auto simp: reas)
  have base_text: "reason \<noteq> ''''" if "reason \<in> set base" for reason
  proof -
    from that consider "reason \<in> set (gr_Reasons (applyModifiers ev))"
      | rule where "triggers ev rule" "reason = rr_Reason (evaluateRule rule ev)"
      unfolding base by auto
    then show ?thesis
    proof cases
      case 1
      then show ?thesis by (auto simp: applyModifiers_reasons split: if_splits)
    next
      case 2
      then show ?thesis by (simp add: triggered_reason_nonempty)
    qed
  qed
  have nonblank: "\<forall>reason\<in>set (gr_Reasons g). reason \<noteq> ''''"
    using base_text by (auto simp: reas)
  have quiet: "gr_Decision g = DecisionALLOW \<and> gr_Reasons g = [''all burn rate checks passed'']"
    if "\<not> er_IsStale ev \<and> \<not> er_InsufficientData ev
          \<and> (\<forall>rule\<in>set rs. \<not> rr_Triggered (evaluateRule rule ev))"
  proof -
    from that have "filter (triggers ev) rs = []"
      by (simp add: filter_empty_conv evaluateRule_Triggered)
    with that have "base = []" by (simp add: base applyModifiers_reasons)
    with empty_allow show ?thesis by (simp add: dec reas)
  qed
  have same: "gr_Reasons g = base" if "gr_Decision r0 \<noteq> DecisionALLOW"
    using that by (simp add: reas)
  have warn: "(er_IsStale ev \<and> ''data is stale'' \<in> set (gr_Reasons g))
              \<or> (er_InsufficientData ev
                   \<and> ''insufficient data (zero traffic)'' \<in> set (gr_Reasons g))
              \<or> (\<exists>rule\<in>set rs. ?explained rule DecisionWARN (gr_Reasons g))"
    if w: "gr_Decision g = DecisionWARN"
  proof -
    from w have w0: "gr_Decision r0 = DecisionWARN" by (simp add: dec)
    with same valid_decisions(1) have b: "gr_Reasons g = base" by auto
    from w0 have s1: "severity (gr_Decision r0) = 1" by (simp add: valid_decisions)
    from inMax sev consider "severity (gr_Decision r0) = m"
      | "severity (gr_Decision r0) \<in> ruleSeverities ev rs" by auto
    then show ?thesis
    proof cases
      case 1
      have "er_IsStale ev \<or> er_InsufficientData ev"
      proof (rule ccontr)
        assume "\<not> (er_IsStale ev \<or> er_InsufficientData ev)"
        then have "m = 0" by (simp add: m)
        with 1 s1 show False by simp
      qed
      then show ?thesis
        unfolding b base applyModifiers_reasons by auto
    next
      case 2
      from rule_reason [OF 2 w0] have "\<exists>rule\<in>set rs. ?explained rule DecisionWARN base"
        by simp
      then show ?thesis unfolding b by (intro disjI2)
    qed
  qed
  have block: "\<exists>rule\<in>set rs. ?explained rule DecisionBLOCK (gr_Reasons g)"
    if bl: "gr_Decision g = DecisionBLOCK"
  proof -
    from bl have b0: "gr_Decision r0 = DecisionBLOCK" by (simp add: dec)
    with same valid_decisions(2) have b: "gr_Reasons g = base" by auto
    from b0 have s2: "severity (gr_Decision r0) = 2" by (simp add: valid_decisions)
    with m have "severity (gr_Decision r0) \<noteq> m" by simp
    with inMax sev have "severity (gr_Decision r0) \<in> ruleSeverities ev rs" by auto
    from rule_reason [OF this b0] have "\<exists>rule\<in>set rs. ?explained rule DecisionBLOCK base"
      by simp
    then show ?thesis unfolding b .
  qed
  show ?thesis
  proof (rule exI [of _ g], intro conjI)
    show "Engine_Evaluate (Some s) (Some ev) = Some g" by (fact ev)
    show "gr_Reasons g \<noteq> []" by (fact nonempty)
    show "\<forall>reason\<in>set (gr_Reasons g). reason \<noteq> ''''" by (fact nonblank)
    show "\<not> er_IsStale ev \<and> \<not> er_InsufficientData ev
          \<and> (\<forall>rule\<in>set ?rs. \<not> rr_Triggered (evaluateRule rule ev))
          \<longrightarrow> gr_Decision g = DecisionALLOW
              \<and> gr_Reasons g = [''all burn rate checks passed'']"
      using quiet unfolding rs_def by (rule impI)
    show "gr_Decision g = DecisionWARN
          \<longrightarrow> (er_IsStale ev \<and> ''data is stale'' \<in> set (gr_Reasons g))
              \<or> (er_InsufficientData ev
                   \<and> ''insufficient data (zero traffic)'' \<in> set (gr_Reasons g))
              \<or> (\<exists>rule\<in>set ?rs. ?explained rule DecisionWARN (gr_Reasons g))"
      using warn unfolding rs_def by (rule impI)
    show "gr_Decision g = DecisionBLOCK
          \<longrightarrow> (\<exists>rule\<in>set ?rs. ?explained rule DecisionBLOCK (gr_Reasons g))"
      using block unfolding rs_def by (rule impI)
  qed
qed

lemma fmtFloat2_15: "fmtFloat2 (Finite 15) = ''15.00''"
  by (simp add: fmtFloat2_def roundHalfEven_def Let_def showNat.simps)

lemma fmtFloat2_14: "fmtFloat2 (Finite 14) = ''14.00''"
  by (simp add: fmtFloat2_def roundHalfEven_def Let_def showNat.simps)

lemma fastBurn_reason:
  "ruleTriggeredReason ''fast-burn'' (Finite 15) (Finite 15) (Finite 14)
     = ''rule fast-burn triggered: short=15.00x, long=15.00x (threshold=14.00x)''"
  by (simp add: ruleTriggeredReason_def fmtFloat2_15 fmtFloat2_14)

theorem Engine_Evaluate_reasons_witness:
  "map_option gr_Reasons
     (Engine_Evaluate (Some createTestSLO) (Some (testEvalResult False False healthyRates)))
     = Some [''all burn rate checks passed'']
   \<and> (\<exists>g. Engine_Evaluate (Some createTestSLO) (Some (testEvalResult True False healthyRates))
              = Some g
          \<and> gr_Decision g = DecisionWARN \<and> ''data is stale'' \<in> set (gr_Reasons g))
   \<and> (\<exists>g. Engine_Evaluate (Some createTestSLO) (Some (testEvalResult True False fastBurnRates))
              = Some g
          \<and> gr_Decision g = DecisionBLOCK
          \<and> ''rule fast-burn triggered: short=15.00x, long=15.00x (threshold=14.00x)''
               \<in> set (gr_Reasons g))"
proof -
  have t1: "\<not> triggers (testEvalResult st ins healthyRates) fastBurnRule" for st ins
    by (simp add: triggers_def fastBurnRule_def testEvalResult_def healthyRates_def
          burnRateOf_def f64_compare_Finite)
  have t2: "triggers (testEvalResult True False fastBurnRates) fastBurnRule"
    by (simp add: triggers_def fastBurnRule_def testEvalResult_def fastBurnRates_def
          burnRateOf_def f64_compare_Finite)
  have rules: "Rules (spec_BurnPolicy (slo_Spec createTestSLO)) = [fastBurnRule]"
    by (simp add: createTestSLO_def)
  have fl: "er_IsStale (testEvalResult st ins rates) = st"
    "er_InsufficientData (testEvalResult st ins rates) = ins" for st ins rates
    by (simp_all add: testEvalResult_def)
  have look: "er_BurnRates (testEvalResult True False fastBurnRates)
                (rule_ShortWindow fastBurnRule) = Some (burnRateOf (Finite 15))"
    "er_BurnRates (testEvalResult True False fastBurnRates)
       (rule_LongWindow fastBurnRule) = Some (burnRateOf (Finite 15))"
    "rule_Name fastBurnRule = ''fast-burn''" "rule_Threshold fastBurnRule = Finite 14"
    "br_BurnRate (burnRateOf (Finite 15)) = Finite 15"
    by (simp_all add: testEvalResult_def fastBurnRates_def fastBurnRule_def burnRateOf_def)
  have d2: "gr_Decision (applyRule (testEvalResult True False healthyRates)
                          fastBurnRule (applyModifiers (testEvalResult True False healthyRates)))
              = DecisionWARN"
    by (simp add: applyRule_def applyModifiers_def Let_def evaluateRule_Triggered t1 fl)
  have d3: "gr_Decision (applyRule (testEvalResult True False fastBurnRates)
                          fastBurnRule (applyModifiers (testEvalResult True False fastBurnRates)))
              = DecisionBLOCK"
    using t2
    by (simp add: applyRule_def Let_def evaluateRule_Triggered)
       (simp add: evaluateRule_def fastBurnRule_def testEvalResult_def fastBurnRates_def
          burnRateOf_def DecisionBLOCK_def f64_compare_Finite)
  from Engine_Evaluate_reasons [of createTestSLO "testEvalResult False False healthyRates"]
  have 1: "map_option gr_Reasons
     (Engine_Evaluate (Some createTestSLO) (Some (testEvalResult False False healthyRates)))
     = Some [''all burn rate checks passed'']"
    by (auto simp: rules evaluateRule_Triggered t1 fl)
  from Engine_Evaluate_reasons [of createTestSLO "testEvalResult True False healthyRates"]
    Engine_Evaluate_Some [of createTestSLO "testEvalResult True False healthyRates"]
  have 2: "\<exists>g. Engine_Evaluate (Some createTestSLO) (Some (testEvalResult True False healthyRates))
              = Some g
          \<and> gr_Decision g = DecisionWARN \<and> ''data is stale'' \<in> set (gr_Reasons g)"
    by (auto simp: rules evaluateRule_Triggered t1 d2 fl)
  from Engine_Evaluate_reasons [of createTestSLO "testEvalResult True False fastBurnRates"]
    Engine_Evaluate_Some [of createTestSLO "testEvalResult True False fastBurnRates"]
  have 3: "\<exists>g. Engine_Evaluate (Some createTestSLO) (Some (testEvalResult True False fastBurnRates))
              = Some g
          \<and> gr_Decision g = DecisionBLOCK
          \<and> ''rule fast-burn triggered: short=15.00x, long=15.00x (threshold=14.00x)''
               \<in> set (gr_Reasons g)"
    by (auto simp: rules d3 look fastBurn_reason)
  from 1 2 3 show ?thesis by blast
qed

subsection \<open>The evaluator\<close>

lemma fold_insert_windows:
  "fold (\<lambda>rule ws. insert (rule_LongWindow rule) (insert (rule_ShortWindow rule) ws)) rs A
     = A \<union> (\<Union>rule\<in>set rs. {rule_ShortWindow rule, rule_LongWindow rule})"
  by (induction rs arbitrary: A) auto

lemma windowSet_required: "windowSet s = requiredWindows s"
  by (simp add: windowSet_def requiredWindows_def fold_insert_windows)

lemma collectWindows_set: "windows \<in> collectWindows s \<Longrightarrow> set windows = requiredWindows s"
  by (simp add: collectWindows_def rangeOver_def windowSet_required)

lemma dataTimestamp_choose:
  assumes "adapter (PrometheusQuery (SLI_Good (spec_SLI (slo_Spec s)))) w = Inr goodMetrics"
    and "adapter (PrometheusQuery (SLI_Total (spec_SLI (slo_Spec s)))) w = Inr totalMetrics"
  shows "dataTimestamp adapter s w
           = chooseTimestamp (wm_DataTimestamp goodMetrics) (wm_DataTimestamp totalMetrics)"
  using assms by (auto simp: dataTimestamp_def chooseTimestamp_def max_def split: option.splits)

lemma queryWindows_fails:
  assumes "\<exists>w\<in>set ws. queryFails adapter s w"
  shows "\<exists>w\<in>set ws. \<exists>err.
           (adapter (PrometheusQuery (SLI_Good (spec_SLI (slo_Spec s)))) w = Inl err
              \<and> queryWindows adapter s now h l ws st = Inl (QueryGoodMetrics w err))
         \<or> (adapter (PrometheusQuery (SLI_Total (spec_SLI (slo_Spec s)))) w = Inl err
              \<and> queryWindows adapter s now h l ws st = Inl (QueryTotalMetrics w err))"
  using assms
proof (induction ws arbitrary: st)
  case Nil
  then show ?case by simp
next
  case (Cons w ws)
  obtain wm r where st: "st = (wm, r)" by (cases st)
  show ?case
  proof (cases "adapter (PrometheusQuery (SLI_Good (spec_SLI (slo_Spec s)))) w")
    case (Inl err)
    then show ?thesis by (simp add: st)
  next
    case good: (Inr goodMetrics)
    show ?thesis
    proof (cases "adapter (PrometheusQuery (SLI_Total (spec_SLI (slo_Spec s)))) w")
      case (Inl err)
      with good show ?thesis by (simp add: st)
    next
      case total: (Inr totalMetrics)
      with good have "\<not> queryFails adapter s w" by (simp add: queryFails_def)
      with Cons.prems have rest: "\<exists>w\<in>set ws. queryFails adapter s w" by auto
      define st' where "st' =
        (wm(w \<mapsto> \<lparr>wm_Window = w, wm_Good = wm_Good goodMetrics,
                    wm_Total = wm_Total totalMetrics,
                    wm_DataTimestamp = chooseTimestamp (wm_DataTimestamp goodMetrics)
                                         (wm_DataTimestamp totalMetrics)\<rparr>),
         case chooseTimestamp (wm_DataTimestamp goodMetrics) (wm_DataTimestamp totalMetrics) of
           Some ts \<Rightarrow> if h \<and> Sub now ts > l then r\<lparr>er_IsStale := True\<rparr> else r
         | None \<Rightarrow> r)"
      have step: "queryWindows adapter s now h l (w # ws) st
                    = queryWindows adapter s now h l ws st'"
        using good total by (simp add: st st'_def Let_def)
      from Cons.IH [OF rest, of st'] show ?thesis
        unfolding step by auto
    qed
  qed
qed

lemma queryWindows_succeeds:
  assumes "queryWindows adapter s now h l ws (wm, r) = Inr (wm', r')"
  shows "dom wm' = dom wm \<union> set ws
       \<and> (\<forall>w\<in>set ws. \<not> queryFails adapter s w)
       \<and> (er_IsStale r' \<longleftrightarrow>
            er_IsStale r
            \<or> (h \<and> (\<exists>w\<in>set ws. \<exists>ts. dataTimestamp adapter s w = Some ts \<and> Sub now ts > l)))
       \<and> r' = r\<lparr>er_IsStale := er_IsStale r'\<rparr>"
  using assms
proof (induction ws arbitrary: wm r)
  case Nil
  then show ?case by simp
next
  case (Cons w ws)
  from Cons.prems obtain goodMetrics where
    good: "adapter (PrometheusQuery (SLI_Good (spec_SLI (slo_Spec s)))) w = Inr goodMetrics"
    by (cases "adapter (PrometheusQuery (SLI_Good (spec_SLI (slo_Spec s)))) w") simp_all
  from Cons.prems good obtain totalMetrics where
    total: "adapter (PrometheusQuery (SLI_Total (spec_SLI (slo_Spec s)))) w = Inr totalMetrics"
    by (cases "adapter (PrometheusQuery (SLI_Total (spec_SLI (slo_Spec s)))) w") simp_all
  define ts where "ts = chooseTimestamp (wm_DataTimestamp goodMetrics)
                          (wm_DataTimestamp totalMetrics)"
  define wm1 where "wm1 = wm(w \<mapsto> \<lparr>wm_Window = w, wm_Good = wm_Good goodMetrics,
                                     wm_Total = wm_Total totalMetrics, wm_DataTimestamp = ts\<rparr>)"
  define r1 where "r1 = (case ts of
                           Some t \<Rightarrow> if h \<and> Sub now t > l then r\<lparr>er_IsStale := True\<rparr> else r
                         | None \<Rightarrow> r)"
  have step: "queryWindows adapter s now h l ws (wm1, r1) = Inr (wm', r')"
    using Cons.prems good total by (simp add: Let_def wm1_def r1_def ts_def)
  note IH = Cons.IH [OF step]
  have nofail: "\<not> queryFails adapter s w"
    using good total by (simp add: queryFails_def)
  have dts: "dataTimestamp adapter s w = ts"
    unfolding ts_def using good total by (rule dataTimestamp_choose)
  have stale1: "er_IsStale r1 \<longleftrightarrow>
                  er_IsStale r \<or> (h \<and> (\<exists>t. dataTimestamp adapter s w = Some t \<and> Sub now t > l))"
    unfolding dts r1_def by (cases ts) auto
  have rest1: "r1 = r\<lparr>er_IsStale := er_IsStale r1\<rparr>"
    unfolding r1_def by (cases ts) auto
  from IH have IH1: "dom wm' = dom wm1 \<union> set ws"
    and IH2: "\<forall>w'\<in>set ws. \<not> queryFails adapter s w'"
    and IH3: "er_IsStale r' \<longleftrightarrow>
            er_IsStale r1
            \<or> (h \<and> (\<exists>w'\<in>set ws. \<exists>t. dataTimestamp adapter s w' = Some t \<and> Sub now t > l))"
    and IH4: "r' = r1\<lparr>er_IsStale := er_IsStale r'\<rparr>"
    by blast+
  have "dom wm1 = insert w (dom wm)" by (simp add: wm1_def)
  with IH1 have "dom wm' = dom wm \<union> set (w # ws)" by auto
  moreover have "\<forall>w'\<in>set (w # ws). \<not> queryFails adapter s w'"
    using IH2 nofail by simp
  moreover have "er_IsStale r' \<longleftrightarrow>
            er_IsStale r
            \<or> (h \<and> (\<exists>w'\<in>set (w # ws). \<exists>t. dataTimestamp adapter s w' = Some t \<and> Sub now t > l))"
    unfolding IH3 stale1 by auto
  moreover have "r' = r\<lparr>er_IsStale := er_IsStale r'\<rparr>"
  proof -
    from IH4 have "r' = r1\<lparr>er_IsStale := er_IsStale r'\<rparr>" .
    also have "\<dots> = r\<lparr>er_IsStale := er_IsStale r'\<rparr>"
      by (subst rest1) simp
    finally show ?thesis .
  qed
  ultimately show ?case by blast
qed

lemma queryWindows_succeedsD:
  assumes "queryWindows adapter s now h l ws (wm, r) = Inr (wm', r')"
  shows "dom wm' = dom wm \<union> set ws"
    and "\<forall>w\<in>set ws. \<not> queryFails adapter s w"
    and "er_IsStale r' \<longleftrightarrow>
            er_IsStale r
            \<or> (h \<and> (\<exists>w\<in>set ws. \<exists>ts. dataTimestamp adapter s w = Some ts \<and> Sub now ts > l))"
    and "r' = r\<lparr>er_IsStale := er_IsStale r'\<rparr>"
  using queryWindows_succeeds [OF assms] by blast+

lemma queryWindows_total:
  assumes "\<forall>w\<in>set ws. \<not> queryFails adapter s w"
  shows "\<exists>st'. queryWindows adapter s now h l ws st = Inr st'"
  using assms
proof (induction ws arbitrary: st)
  case Nil
  then show ?case by simp
next
  case (Cons w ws)
  obtain wm r where st: "st = (wm, r)" by (cases st)
  from Cons.prems obtain goodMetrics totalMetrics where
    "adapter (PrometheusQuery (SLI_Good (spec_SLI (slo_Spec s)))) w = Inr goodMetrics"
    "adapter (PrometheusQuery (SLI_Total (spec_SLI (slo_Spec s)))) w = Inr totalMetrics"
    unfolding queryFails_def
    by (metis list.set_intros(1) sum.exhaust)
  then show ?case
    using Cons.IH Cons.prems by (simp add: st Let_def)
qed

lemma burnRateStep_fields:
  "dom (er_BurnRates (burnRateStep obj wm w r))
     = dom (er_BurnRates r) \<union> ({w} \<inter> dom wm)"
  "er_IsStale (burnRateStep obj wm w r) = er_IsStale r"
  by (auto simp: burnRateStep_def Let_def split: option.splits)

lemma fold_burnRateStep_fields:
  "dom (er_BurnRates (fold (burnRateStep obj wm) ks r))
     = dom (er_BurnRates r) \<union> (set ks \<inter> dom wm)"
  "er_IsStale (fold (burnRateStep obj wm) ks r) = er_IsStale r"
  by (induction ks arbitrary: r) (auto simp: burnRateStep_fields)

text \<open>The result of a successful evaluation, in terms of the loop over the windows.\<close>

lemma Evaluate_unfold:
  "Evaluate adapter windows keys (Some s) now =
     (case queryWindows adapter s now (snd (parseStalenessLimit s))
             (fst (parseStalenessLimit s)) windows (Map.empty, initialResult s now) of
        Inl err \<Rightarrow> Inl err
      | Inr (wm, r1) \<Rightarrow>
          (case wm (ComplianceWindow (slo_Spec s)) of
             None \<Rightarrow> Inl (MissingComplianceMetrics (ComplianceWindow (slo_Spec s)))
           | Some cm \<Rightarrow>
               Inr ((fold (burnRateStep (Objective (slo_Spec s)) wm) keys
                       (r1\<lparr>er_SLI := ComputeSLI (wm_Good cm) (wm_Total cm)\<rparr>))
                    \<lparr>er_BudgetRemaining :=
                       ComputeBudgetRemaining
                         (sli_ErrorRate (er_SLI
                            (fold (burnRateStep (Objective (slo_Spec s)) wm) keys
                               (r1\<lparr>er_SLI := ComputeSLI (wm_Good cm) (wm_Total cm)\<rparr>))))
                         (Objective (slo_Spec s))\<rparr>)))"
  by (simp add: Evaluate_def initialResult_def Let_def split: sum.splits option.splits)

lemma Evaluate_Inr:
  assumes "Evaluate adapter windows keys (Some s) now = Inr result"
  obtains wm r1 where
    "queryWindows adapter s now (snd (parseStalenessLimit s)) (fst (parseStalenessLimit s))
       windows (Map.empty, initialResult s now) = Inr (wm, r1)"
    "dom (er_BurnRates result) = dom (er_BurnRates r1) \<union> (set keys \<inter> dom wm)"
    "er_IsStale result = er_IsStale r1"
proof -
  from assms obtain wm r1 where
    q: "queryWindows adapter s now (snd (parseStalenessLimit s)) (fst (parseStalenessLimit s))
          windows (Map.empty, initialResult s now) = Inr (wm, r1)"
    unfolding Evaluate_unfold by (auto split: sum.splits)
  from assms obtain cm where cm: "wm (ComplianceWindow (slo_Spec s)) = Some cm"
    unfolding Evaluate_unfold q by (auto split: option.splits)
  from assms have res: "result =
      (fold (burnRateStep (Objective (slo_Spec s)) wm) keys
         (r1\<lparr>er_SLI := ComputeSLI (wm_Good cm) (wm_Total cm)\<rparr>))
        \<lparr>er_BudgetRemaining :=
           ComputeBudgetRemaining
             (sli_ErrorRate (er_SLI
               (fold (burnRateStep (Objective (slo_Spec s)) wm) keys
                  (r1\<lparr>er_SLI := ComputeSLI (wm_Good cm) (wm_Total cm)\<rparr>))))
             (Objective (slo_Spec s))\<rparr>"
    unfolding Evaluate_unfold q by (simp add: cm)
  have "dom (er_BurnRates result) = dom (er_BurnRates r1) \<union> (set keys \<inter> dom wm)"
    unfolding res by (simp add: fold_burnRateStep_fields)
  moreover have "er_IsStale result = er_IsStale r1"
    unfolding res by (simp add: fold_burnRateStep_fields)
  ultimately show ?thesis
    using that [OF q] by blast
qed

lemma Evaluate_total:
  assumes "windows \<in> collectWindows s" and "\<forall>w\<in>set windows. \<not> queryFails adapter s w"
  shows "\<exists>result. Evaluate adapter windows keys (Some s) now = Inr result"
proof -
  from queryWindows_total [OF assms(2)]
  obtain wm r1 where
    q: "queryWindows adapter s now (snd (parseStalenessLimit s)) (fst (parseStalenessLimit s))
          windows (Map.empty, initialResult s now) = Inr (wm, r1)"
    by (metis surj_pair)
  from queryWindows_succeedsD(1) [OF q] have "dom wm = set windows" by simp
  moreover have "ComplianceWindow (slo_Spec s) \<in> set windows"
    using collectWindows_set [OF assms(1)] by (simp add: requiredWindows_def)
  ultimately obtain cm where "wm (ComplianceWindow (slo_Spec s)) = Some cm" by auto
  then show ?thesis
    unfolding Evaluate_unfold q by simp
qed

lemma wrap64_range: "minInt64 \<le> wrap64 x \<and> wrap64 x \<le> maxInt64"
proof -
  have "0 \<le> (x + 9223372036854775808) mod 18446744073709551616"
    and "(x + 9223372036854775808) mod 18446744073709551616 < 18446744073709551616"
    by simp_all
  then show ?thesis by (simp add: wrap64_def minInt64_def maxInt64_def)
qed

lemma wrap64_even: "even x \<Longrightarrow> even (wrap64 x)"
proof -
  assume e: "even x"
  have "even ((x + 9223372036854775808) mod 18446744073709551616)"
    using e by (simp add: dvd_mod_iff)
  then show ?thesis by (simp add: wrap64_def)
qed

lemma ParseDuration_even:
  assumes "ParseDuration str = Inr d"
  shows "even d"
proof -
  from assms obtain num unit where p: "durationPattern str = Some (num, unit)"
    by (cases "durationPattern str") (auto simp: ParseDuration_def)
  from assms p obtain v where v: "ParseInt num = Inr v"
    by (cases "ParseInt num") (auto simp: ParseDuration_def)
  have "even (wrap64 (v * Second))" "even (wrap64 (v * Minute))" "even (wrap64 (v * Hour))"
    "even (wrap64 (wrap64 (v * 24) * Hour))"
    by (rule wrap64_even, simp add: Second_def Minute_def Hour_def)+
  with assms p v show ?thesis
    by (auto simp: ParseDuration_def split: if_splits)
qed

lemma ParseDuration_range:
  assumes "ParseDuration str = Inr d"
  shows "minInt64 \<le> d" and "d < maxInt64"
proof -
  from assms obtain num unit where p: "durationPattern str = Some (num, unit)"
    by (cases "durationPattern str") (auto simp: ParseDuration_def)
  from assms p obtain v where v: "ParseInt num = Inr v"
    by (cases "ParseInt num") (auto simp: ParseDuration_def)
  from assms p v obtain x where "d = wrap64 x"
    by (auto simp: ParseDuration_def split: if_splits)
  with wrap64_range [of x] have ge: "minInt64 \<le> d" and le: "d \<le> maxInt64" by simp_all
  from ge show "minInt64 \<le> d" .
  have "odd maxInt64" by (simp add: maxInt64_def)
  with ParseDuration_even [OF assms] have "d \<noteq> maxInt64" by auto
  with le show "d < maxInt64" by simp
qed

lemma Sub_greater:
  assumes "minInt64 \<le> l" and "l < maxInt64"
  shows "Sub now ts > l \<longleftrightarrow> now - ts > l"
  using assms by (auto simp: Sub_def Let_def)

lemma checkoutSLO_windows:
  "[''30d'', ''5m'', ''1h''] \<in> collectWindows checkoutSLO"
  "rangeOver (set [''30d'', ''5m'', ''1h'']) [''1h'', ''30d'', ''5m'']"
  by (auto simp: collectWindows_def rangeOver_def windowSet_def checkoutSLO_def
        fastBurnRule_def)

lemma staleFixtures_answers:
  "\<forall>w\<in>set [''30d'', ''5m'', ''1h''].
     \<not> queryFails (Synthetic_QueryWindow staleFixtures) checkoutSLO w"
  by (simp add: queryFails_def Synthetic_QueryWindow_def parseQuery_def staleFixtures_def
        checkoutSLO_def)

text \<open>
  Claim C6. For every non-nil SLO spec, whenever \<open>Evaluator.Evaluate\<close> returns without
  error, the keys of the \<open>BurnRates\<close> map of its result are exactly the compliance
  window and the short and the long window of every burn-policy rule.
\<close>

theorem Evaluate_BurnRates_keys:
  assumes "windows \<in> collectWindows s" and "rangeOver (set windows) keys"
    and "Evaluate adapter windows keys (Some s) now = Inr result"
  shows "dom (er_BurnRates result)
           = {ComplianceWindow (slo_Spec s)}
             \<union> (\<Union>rule\<in>set (Rules (spec_BurnPolicy (slo_Spec s))).
                  {rule_ShortWindow rule, rule_LongWindow rule})"
proof -
  from assms(3) obtain wm r1 where
    q: "queryWindows adapter s now (snd (parseStalenessLimit s)) (fst (parseStalenessLimit s))
          windows (Map.empty, initialResult s now) = Inr (wm, r1)"
    and d: "dom (er_BurnRates result) = dom (er_BurnRates r1) \<union> (set keys \<inter> dom wm)"
    by (rule Evaluate_Inr)
  have wm: "dom wm = set windows"
    using queryWindows_succeedsD(1) [OF q] by simp
  have r1: "r1 = (initialResult s now)\<lparr>er_IsStale := er_IsStale r1\<rparr>"
    by (rule queryWindows_succeedsD(4) [OF q])
  have "er_BurnRates r1 = Map.empty"
    by (subst r1) (simp add: initialResult_def)
  with d wm assms(2) have "dom (er_BurnRates result) = set windows"
    by (simp add: rangeOver_def)
  with collectWindows_set [OF assms(1)] show ?thesis
    by (simp add: requiredWindows_def)
qed

theorem Evaluate_BurnRates_keys_witness:
  "\<exists>result.
     Evaluate (Synthetic_QueryWindow staleFixtures) [''30d'', ''5m'', ''1h'']
       [''1h'', ''30d'', ''5m''] (Some checkoutSLO) (1000 * Second) = Inr result
     \<and> dom (er_BurnRates result) = {''30d'', ''5m'', ''1h''}"
proof -
  from Evaluate_total [OF checkoutSLO_windows(1) staleFixtures_answers]
  obtain result where
    r: "Evaluate (Synthetic_QueryWindow staleFixtures) [''30d'', ''5m'', ''1h'']
          [''1h'', ''30d'', ''5m''] (Some checkoutSLO) (1000 * Second) = Inr result"
    by blast
  from Evaluate_BurnRates_keys [OF checkoutSLO_windows r]
  have "dom (er_BurnRates result) = {''30d'', ''5m'', ''1h''}"
    by (auto simp: checkoutSLO_def fastBurnRule_def)
  with r show ?thesis by blast
qed

text \<open>
  Claim C5, as amended. For every non-nil SLO spec whose staleness limit is not empty and
  parses as a duration \<open>stalenessLimit\<close>, and every time \<open>now\<close>: the result of
  \<open>Evaluator.Evaluate\<close> has \<open>isStale = true\<close> if for some required window the data
  timestamp (the later of the timestamps of the good and the total query when both
  exist, else the one that is present) satisfies \<open>now - ts > stalenessLimit\<close>, and
  \<open>isStale = false\<close> otherwise; a window without a timestamp does not contribute.
\<close>

theorem Evaluate_IsStale:
  assumes "windows \<in> collectWindows s" and "rangeOver (set windows) keys"
    and "StalenessLimit (spec_Gating (slo_Spec s)) \<noteq> ''''"
    and "ParseDuration (StalenessLimit (spec_Gating (slo_Spec s))) = Inr stalenessLimit"
    and "Evaluate adapter windows keys (Some s) now = Inr result"
  shows "er_IsStale result \<longleftrightarrow>
           (\<exists>window\<in>requiredWindows s. \<exists>ts.
              dataTimestamp adapter s window = Some ts \<and> now - ts > stalenessLimit)"
proof -
  have lim: "parseStalenessLimit s = (stalenessLimit, True)"
    using assms(3,4) by (simp add: parseStalenessLimit_def)
  from assms(5) obtain wm r1 where
    q0: "queryWindows adapter s now (snd (parseStalenessLimit s)) (fst (parseStalenessLimit s))
           windows (Map.empty, initialResult s now) = Inr (wm, r1)"
    and st: "er_IsStale result = er_IsStale r1"
    by (rule Evaluate_Inr)
  from q0 have q: "queryWindows adapter s now True stalenessLimit windows
                     (Map.empty, initialResult s now) = Inr (wm, r1)"
    by (simp add: lim)
  have "\<not> er_IsStale (initialResult s now)" by (simp add: initialResult_def)
  with queryWindows_succeedsD(3) [OF q]
  have "er_IsStale r1 \<longleftrightarrow>
          (\<exists>w\<in>set windows. \<exists>ts. dataTimestamp adapter s w = Some ts \<and> Sub now ts > stalenessLimit)"
    by blast
  also have "\<dots> \<longleftrightarrow>
          (\<exists>w\<in>requiredWindows s. \<exists>ts. dataTimestamp adapter s w = Some ts
              \<and> now - ts > stalenessLimit)"
    using ParseDuration_range [OF assms(4)] collectWindows_set [OF assms(1)]
    by (simp add: Sub_greater)
  finally show ?thesis using st by simp
qed

theorem Evaluate_IsStale_witness:
  "\<exists>result.
     Evaluate (Synthetic_QueryWindow staleFixtures) [''30d'', ''5m'', ''1h'']
       [''1h'', ''30d'', ''5m''] (Some checkoutSLO) (1000 * Second) = Inr result
     \<and> er_IsStale result"
proof -
  from Evaluate_total [OF checkoutSLO_windows(1) staleFixtures_answers]
  obtain result where
    r: "Evaluate (Synthetic_QueryWindow staleFixtures) [''30d'', ''5m'', ''1h'']
          [''1h'', ''30d'', ''5m''] (Some checkoutSLO) (1000 * Second) = Inr result"
    by blast
  have lim: "StalenessLimit (spec_Gating (slo_Spec checkoutSLO)) \<noteq> ''''"
    by (simp add: checkoutSLO_def)
  have p: "ParseDuration (StalenessLimit (spec_Gating (slo_Spec checkoutSLO)))
             = Inr (120 * Second)"
    by (simp add: checkoutSLO_def ParseDuration_def durationPattern_def isDigit_def
          ParseInt_def digitsValue_def digitVal_def maxInt64_def minInt64_def wrap64_def
          Second_def Let_def)
  have w: "''5m'' \<in> requiredWindows checkoutSLO"
    by (simp add: requiredWindows_def checkoutSLO_def fastBurnRule_def)
  have ts: "dataTimestamp (Synthetic_QueryWindow staleFixtures) checkoutSLO ''5m''
              = Some (700 * Second)"
    by (simp add: dataTimestamp_def Synthetic_QueryWindow_def parseQuery_def staleFixtures_def
          checkoutSLO_def)
  have "1000 * Second - 700 * Second > 120 * Second"
    by (simp add: Second_def)
  with w ts have "\<exists>window\<in>requiredWindows checkoutSLO. \<exists>ts.
              dataTimestamp (Synthetic_QueryWindow staleFixtures) checkoutSLO window = Some ts
              \<and> 1000 * Second - ts > 120 * Second"
    by blast
  with Evaluate_IsStale [OF checkoutSLO_windows lim p r] have "er_IsStale result" by simp
  with r show ?thesis by blast
qed

text \<open>
  Without the word "parses" the claim fails: a limit that is not empty and that
  \<open>ParseDuration\<close> rejects leaves \<open>haveStalenessLimit\<close> false, and no timestamp makes
  the result stale, however old. Here the limit is \<open>2m30s\<close> and the data of the 5 minute
  window is older than any \<^verbatim>\<open>Duration\<close> can express.
\<close>

lemma Evaluate_no_limit:
  assumes "snd (parseStalenessLimit s) = False"
    and "Evaluate adapter windows keys (Some s) now = Inr result"
  shows "\<not> er_IsStale result"
proof -
  from assms(2) obtain wm r1 where
    q: "queryWindows adapter s now (snd (parseStalenessLimit s)) (fst (parseStalenessLimit s))
           windows (Map.empty, initialResult s now) = Inr (wm, r1)"
    and st: "er_IsStale result = er_IsStale r1"
    by (rule Evaluate_Inr)
  have "\<not> er_IsStale (initialResult s now)" by (simp add: initialResult_def)
  with queryWindows_succeedsD(3) [OF q] assms(1) st show ?thesis by simp
qed

theorem Evaluate_IsStale_counterexample:
  "StalenessLimit (spec_Gating (slo_Spec misconfiguredSLO)) \<noteq> ''''
   \<and> ''5m'' \<in> requiredWindows misconfiguredSLO
   \<and> dataTimestamp (Synthetic_QueryWindow staleFixtures) misconfiguredSLO ''5m''
       = Some (700 * Second)
   \<and> 10000000000 * Second - 700 * Second > maxInt64
   \<and> map_sum id er_IsStale
        (Evaluate (Synthetic_QueryWindow staleFixtures) [''30d'', ''5m'', ''1h'']
           [''1h'', ''30d'', ''5m''] (Some misconfiguredSLO) (10000000000 * Second))
       = Inr False"
proof -
  have same: "slo_Spec misconfiguredSLO
                = (slo_Spec checkoutSLO)
                    \<lparr>spec_Gating := \<lparr>MinDataPoints = 1, StalenessLimit = ''2m30s''\<rparr>\<rparr>"
    by (simp add: misconfiguredSLO_def)
  have 1: "StalenessLimit (spec_Gating (slo_Spec misconfiguredSLO)) \<noteq> ''''"
    by (simp add: same)
  have 2: "''5m'' \<in> requiredWindows misconfiguredSLO"
    by (simp add: requiredWindows_def same checkoutSLO_def fastBurnRule_def)
  have 3: "dataTimestamp (Synthetic_QueryWindow staleFixtures) misconfiguredSLO ''5m''
             = Some (700 * Second)"
    by (simp add: dataTimestamp_def Synthetic_QueryWindow_def parseQuery_def staleFixtures_def
          same checkoutSLO_def)
  have 4: "10000000000 * Second - 700 * Second > maxInt64"
    by (simp add: Second_def maxInt64_def)
  have w: "[''30d'', ''5m'', ''1h''] \<in> collectWindows misconfiguredSLO"
    by (auto simp: collectWindows_def rangeOver_def windowSet_def same checkoutSLO_def
          fastBurnRule_def)
  have nf: "\<forall>w\<in>set [''30d'', ''5m'', ''1h''].
              \<not> queryFails (Synthetic_QueryWindow staleFixtures) misconfiguredSLO w"
    by (simp add: queryFails_def Synthetic_QueryWindow_def parseQuery_def staleFixtures_def
          same checkoutSLO_def)
  have nolimit: "snd (parseStalenessLimit misconfiguredSLO) = False"
    by (simp add: parseStalenessLimit_def same ParseDuration_def durationPattern_def
          isDigit_def Let_def)
  from Evaluate_total [OF w nf]
  obtain result where
    r: "Evaluate (Synthetic_QueryWindow staleFixtures) [''30d'', ''5m'', ''1h'']
          [''1h'', ''30d'', ''5m''] (Some misconfiguredSLO) (10000000000 * Second) = Inr result"
    by blast
  from Evaluate_no_limit [OF nolimit r] have "\<not> er_IsStale result" .
  with r have 5: "map_sum id er_IsStale
        (Evaluate (Synthetic_QueryWindow staleFixtures) [''30d'', ''5m'', ''1h'']
           [''1h'', ''30d'', ''5m''] (Some misconfiguredSLO) (10000000000 * Second))
       = Inr False"
    by simp
  from 1 2 3 4 5 show ?thesis by blast
qed

subsection \<open>The scheduler\<close>

lemma Evaluate_fails:
  assumes "windows \<in> collectWindows s"
    and "\<exists>window\<in>requiredWindows s. queryFails adapter s window"
  shows "\<exists>window\<in>requiredWindows s. \<exists>err.
           (adapter (PrometheusQuery (SLI_Good (spec_SLI (slo_Spec s)))) window = Inl err
              \<and> Evaluate adapter windows keys (Some s) now = Inl (QueryGoodMetrics window err))
         \<or> (adapter (PrometheusQuery (SLI_Total (spec_SLI (slo_Spec s)))) window = Inl err
              \<and> Evaluate adapter windows keys (Some s) now = Inl (QueryTotalMetrics window err))"
proof -
  have set: "set windows = requiredWindows s"
    using assms(1) by (rule collectWindows_set)
  with assms(2) have "\<exists>w\<in>set windows. queryFails adapter s w" by simp
  from queryWindows_fails [OF this, of now "snd (parseStalenessLimit s)"
      "fst (parseStalenessLimit s)" "(Map.empty, initialResult s now)"]
  obtain w err where w: "w \<in> set windows"
    and q: "(adapter (PrometheusQuery (SLI_Good (spec_SLI (slo_Spec s)))) w = Inl err
              \<and> queryWindows adapter s now (snd (parseStalenessLimit s))
                   (fst (parseStalenessLimit s)) windows (Map.empty, initialResult s now)
                 = Inl (QueryGoodMetrics w err))
         \<or> (adapter (PrometheusQuery (SLI_Total (spec_SLI (slo_Spec s)))) w = Inl err
              \<and> queryWindows adapter s now (snd (parseStalenessLimit s))
                   (fst (parseStalenessLimit s)) windows (Map.empty, initialResult s now)
                 = Inl (QueryTotalMetrics w err))"
    by blast
  from q have "(adapter (PrometheusQuery (SLI_Good (spec_SLI (slo_Spec s)))) w = Inl err
              \<and> Evaluate adapter windows keys (Some s) now = Inl (QueryGoodMetrics w err))
         \<or> (adapter (PrometheusQuery (SLI_Total (spec_SLI (slo_Spec s)))) w = Inl err
              \<and> Evaluate adapter windows keys (Some s) now = Inl (QueryTotalMetrics w err))"
    unfolding Evaluate_unfold by auto
  with w set show ?thesis by blast
qed

lemma evaluateOnce_error:
  "Evaluate adapter windows keys (Some sloSpec) now = Inl err
     \<Longrightarrow> evaluateOnce adapter windows keys now sch sloSpec interval = sch"
  by (simp add: evaluateOnce_def)

text \<open>
  Claim C7. For every SLO and every evaluation the scheduler runs (a tick of the loop or
  \<open>EvaluateNow\<close>): when an adapter call fails, \<open>Evaluator.Evaluate\<close> returns an error
  that wraps the adapter's error and names the failing window and the role (good or
  total) of the query, and \<open>evaluateOnce\<close> leaves the scheduler's state as it was: the
  cache holds for every id what it held before, and nothing is written to it or to the
  audit storage.
\<close>

theorem evaluateOnce_adapter_failure:
  assumes "windows \<in> collectWindows sloSpec"
    and "\<exists>window\<in>requiredWindows sloSpec. queryFails adapter sloSpec window"
  shows "(\<exists>window\<in>requiredWindows sloSpec. \<exists>err.
            (adapter (PrometheusQuery (SLI_Good (spec_SLI (slo_Spec sloSpec)))) window = Inl err
               \<and> Evaluate adapter windows keys (Some sloSpec) now
                   = Inl (QueryGoodMetrics window err))
          \<or> (adapter (PrometheusQuery (SLI_Total (spec_SLI (slo_Spec sloSpec)))) window = Inl err
               \<and> Evaluate adapter windows keys (Some sloSpec) now
                   = Inl (QueryTotalMetrics window err)))
       \<and> evaluateOnce adapter windows keys now sch sloSpec interval = sch
       \<and> (findSLO (sch_slos sch) sloID = Some sloSpec
            \<longrightarrow> snd (EvaluateNow adapter windows keys now sch sloID) = sch)"
proof -
  note f = Evaluate_fails [OF assms, of keys now]
  then obtain err where e: "Evaluate adapter windows keys (Some sloSpec) now = Inl err"
    by blast
  have once: "evaluateOnce adapter windows keys now sch sloSpec i = sch" for i
    using e by (rule evaluateOnce_error)
  have "snd (EvaluateNow adapter windows keys now sch sloID) = sch"
    if "findSLO (sch_slos sch) sloID = Some sloSpec"
    using that once by (simp add: EvaluateNow_def split: sum.splits)
  with f once show ?thesis by blast
qed

theorem evaluateOnce_adapter_failure_witness:
  "Evaluate unavailableAdapter [''30d'', ''5m'', ''1h''] [''1h'', ''30d'', ''5m'']
     (Some checkoutSLO) (1000 * Second)
     = Inl (QueryGoodMetrics ''30d'' (AdapterError ''query failed after 1 attempts''))
   \<and> evaluateOnce unavailableAdapter [''30d'', ''5m'', ''1h''] [''1h'', ''30d'', ''5m'']
        (1000 * Second) emptyScheduler checkoutSLO (30 * Second) = emptyScheduler
   \<and> EvaluateNow unavailableAdapter [''30d'', ''5m'', ''1h''] [''1h'', ''30d'', ''5m'']
        (1000 * Second) emptyScheduler ''test-slo'' = (None, emptyScheduler)"
proof -
  have fails: "\<exists>window\<in>requiredWindows checkoutSLO. queryFails unavailableAdapter checkoutSLO window"
    by (auto simp: requiredWindows_def queryFails_def unavailableAdapter_def)
  have found: "findSLO (sch_slos emptyScheduler) ''test-slo'' = Some checkoutSLO"
    by (simp add: findSLO_def emptyScheduler_def checkoutSLO_def)
  have interval: "ParseDuration (EvaluationInterval (slo_Spec checkoutSLO)) = Inr (30 * Second)"
    by (simp add: checkoutSLO_def ParseDuration_def durationPattern_def isDigit_def
          ParseInt_def digitsValue_def digitVal_def maxInt64_def minInt64_def wrap64_def
          Second_def Let_def)
  have 1: "Evaluate unavailableAdapter [''30d'', ''5m'', ''1h''] [''1h'', ''30d'', ''5m'']
     (Some checkoutSLO) (1000 * Second)
     = Inl (QueryGoodMetrics ''30d'' (AdapterError ''query failed after 1 attempts''))"
    by (simp add: Evaluate_unfold unavailableAdapter_def)
  from evaluateOnce_adapter_failure [OF checkoutSLO_windows(1) fails,
      of "[''1h'', ''30d'', ''5m'']" "1000 * Second" emptyScheduler "30 * Second" "''test-slo''"]
    found
  have 2: "evaluateOnce unavailableAdapter [''30d'', ''5m'', ''1h''] [''1h'', ''30d'', ''5m'']
        (1000 * Second) emptyScheduler checkoutSLO (30 * Second) = emptyScheduler"
    and 3: "snd (EvaluateNow unavailableAdapter [''30d'', ''5m'', ''1h''] [''1h'', ''30d'', ''5m'']
        (1000 * Second) emptyScheduler ''test-slo'') = emptyScheduler"
    by blast+
  have "fst (EvaluateNow unavailableAdapter [''30d'', ''5m'', ''1h''] [''1h'', ''30d'', ''5m'']
        (1000 * Second) emptyScheduler ''test-slo'') = None"
    by (simp add: EvaluateNow_def found interval)
  with 3 have "EvaluateNow unavailableAdapter [''30d'', ''5m'', ''1h''] [''1h'', ''30d'', ''5m'']
        (1000 * Second) emptyScheduler ''test-slo'' = (None, emptyScheduler)"
    by (simp add: prod_eq_iff)
  with 1 2 show ?thesis by simp
qed

end
